theory Spec2Isabelle
  imports Complex_Main "HOL-Library.Multiset"
begin

section \<open>Numbers\<close>

text \<open>
  JavaScript numbers are IEEE doubles. Throughout this development a number is a
  \<^typ>\<open>real\<close>: sums, products and quotients are exact, so rounding error is outside
  the model. All statements below are about that exact reading of the arithmetic
  the source writes. In double arithmetic an equality or a bound proved here can be
  off in the last bit: \<^verbatim>\<open>0.2 + (0.9 - 0.2) * 1\<close> evaluates to
  \<^verbatim>\<open>0.8999999999999999\<close>, and the minimum-jerk polynomial evaluates to
  \<^verbatim>\<open>1.0000000000000018\<close> at \<^verbatim>\<open>0.9999957240609105\<close>.
\<close>

section \<open>Interpolation utilities (src/unnamed/part\_003)\<close>

text \<open>\<^verbatim>\<open>export const lerp = (a, b, t) => a + (b - a) * t;\<close>\<close>

definition lerp :: "real \<Rightarrow> real \<Rightarrow> real \<Rightarrow> real" where
  "lerp a b t = a + (b - a) * t"

text \<open>\<^verbatim>\<open>minimumJerk\<close>: the three local products and the quintic, as written.\<close>

definition minimumJerk :: "real \<Rightarrow> real" where
  "minimumJerk t =
     (let t3 = t * t * t; t4 = t3 * t; t5 = t4 * t
      in 10 * t3 - 15 * t4 + 6 * t5)"

text \<open>\<^verbatim>\<open>easeInOut\<close>; \<^verbatim>\<open>Math.pow(x, 2)\<close> is the square.\<close>

definition easeInOut :: "real \<Rightarrow> real" where
  "easeInOut t = (if t < 0.5 then 2 * t * t else 1 - (- 2 * t + 2) ^ 2 / 2)"

text \<open>
  The \<^verbatim>\<open>switch\<close> of \<^verbatim>\<open>interpolateJoints\<close> on the curve's name: \<^verbatim>\<open>'linear'\<close>,
  \<^verbatim>\<open>'easeInOut'\<close>, and \<^verbatim>\<open>'minimumJerk'\<close> sharing the \<^verbatim>\<open>default\<close> branch.
\<close>

definition smoothT :: "string \<Rightarrow> real \<Rightarrow> real" where
  "smoothT interpolationType t =
     (if interpolationType = ''linear'' then t
      else if interpolationType = ''easeInOut'' then easeInOut t
      else minimumJerk t)"

text \<open>
  The property names of a joint-angle object are the five joint names the library
  uses. The object maps a joint name to its angle; a joint it does not define reads
  as \<^verbatim>\<open>undefined\<close>, here \<^const>\<open>None\<close>.
\<close>

datatype joint = cmc | mcp | ip | pip | dip

type_synonym joints = "joint \<rightharpoonup> real"

text \<open>
  \<^verbatim>\<open>interpolateJoints\<close>: the result has one property for each property of
  \<^verbatim>\<open>joints1\<close> that \<^verbatim>\<open>joints2\<close> defines too.
\<close>

definition interpolateJoints :: "joints \<Rightarrow> joints \<Rightarrow> real \<Rightarrow> string \<Rightarrow> joints" where
  "interpolateJoints joints1 joints2 t interpolationType =
     (\<lambda>joint. case joints1 joint of
        None \<Rightarrow> None
      | Some a \<Rightarrow> (case joints2 joint of
          None \<Rightarrow> None
        | Some b \<Rightarrow> Some (lerp a b (smoothT interpolationType t))))"

text \<open>
  A pose is what \<^verbatim>\<open>interpolatePoses\<close> reads and builds: the three finger groups.
  The function reads these three properties of its arguments and nothing else, so it
  accepts any object that extends a pose (a library entry with its \<^verbatim>\<open>name\<close> and
  \<^verbatim>\<open>description\<close>), and it returns a plain pose.
\<close>

record pose =
  thumb :: joints
  index :: joints
  pinky :: joints

definition interpolatePoses :: "'a pose_scheme \<Rightarrow> 'b pose_scheme \<Rightarrow> real \<Rightarrow> string \<Rightarrow> pose" where
  "interpolatePoses pose1 pose2 t interpolationType =
     \<lparr> thumb = interpolateJoints (thumb pose1) (thumb pose2) t interpolationType,
       index = interpolateJoints (index pose1) (index pose2) t interpolationType,
       pinky = interpolateJoints (pinky pose1) (pinky pose2) t interpolationType \<rparr>"

text \<open>
  A full pose defines exactly the nine joints of the data model: \<^verbatim>\<open>cmc\<close>,
  \<^verbatim>\<open>mcp\<close>, \<^verbatim>\<open>ip\<close> for the thumb and \<^verbatim>\<open>mcp\<close>, \<^verbatim>\<open>pip\<close>, \<^verbatim>\<open>dip\<close> for index
  and pinky.
\<close>

definition full_pose :: "'a pose_scheme \<Rightarrow> bool" where
  "full_pose p \<longleftrightarrow>
     dom (thumb p) = {cmc, mcp, ip} \<and>
     dom (index p) = {mcp, pip, dip} \<and>
     dom (pinky p) = {mcp, pip, dip}"



section \<open>Hand pose library (src/src/utils/handPoses.js)\<close>

text \<open>
  An entry of \<^verbatim>\<open>HAND_POSES\<close>: a pose together with its display name and its
  description.
\<close>

record hand_pose = pose +
  name :: string
  description :: string

definition neutral_pose :: hand_pose where
  "neutral_pose =
     \<lparr> thumb = [cmc \<mapsto> 0.1, mcp \<mapsto> 0.15, ip \<mapsto> 0.1],
       index = [mcp \<mapsto> 0.15, pip \<mapsto> 0.15, dip \<mapsto> 0.1],
       pinky = [mcp \<mapsto> 0.2, pip \<mapsto> 0.2, dip \<mapsto> 0.15],
       name = ''Neutral'',
       description = ''Relaxed neutral position'' \<rparr>"

definition open_pose :: hand_pose where
  "open_pose =
     \<lparr> thumb = [cmc \<mapsto> 0.3, mcp \<mapsto> 0, ip \<mapsto> 0],
       index = [mcp \<mapsto> 0, pip \<mapsto> 0, dip \<mapsto> 0],
       pinky = [mcp \<mapsto> 0, pip \<mapsto> 0, dip \<mapsto> 0],
       name = ''Open Hand'',
       description = ''All fingers fully extended'' \<rparr>"

definition closedGrasp_pose :: hand_pose where
  "closedGrasp_pose =
     \<lparr> thumb = [cmc \<mapsto> 0.7, mcp \<mapsto> 0.8, ip \<mapsto> 0.7],
       index = [mcp \<mapsto> 0.85, pip \<mapsto> 0.9, dip \<mapsto> 0.8],
       pinky = [mcp \<mapsto> 0.9, pip \<mapsto> 0.95, dip \<mapsto> 0.85],
       name = ''Closed Grasp'',
       description = ''All fingers in grasp position'' \<rparr>"

definition thumbIndexPinch_pose :: hand_pose where
  "thumbIndexPinch_pose =
     \<lparr> thumb = [cmc \<mapsto> 0.85, mcp \<mapsto> 0.7, ip \<mapsto> 0.5],
       index = [mcp \<mapsto> 0.65, pip \<mapsto> 0.7, dip \<mapsto> 0.55],
       pinky = [mcp \<mapsto> 0.3, pip \<mapsto> 0.35, dip \<mapsto> 0.25],
       name = ''Thumb-Index Pinch'',
       description = ''Thumb and index finger pinch, pinky relaxed'' \<rparr>"

definition indexExtension_pose :: hand_pose where
  "indexExtension_pose =
     \<lparr> thumb = [cmc \<mapsto> 0.4, mcp \<mapsto> 0.6, ip \<mapsto> 0.5],
       index = [mcp \<mapsto> 0, pip \<mapsto> 0, dip \<mapsto> 0],
       pinky = [mcp \<mapsto> 0.8, pip \<mapsto> 0.85, dip \<mapsto> 0.75],
       name = ''Index Extension'',
       description = ''Index finger extended, others flexed'' \<rparr>"

definition pinkyExtension_pose :: hand_pose where
  "pinkyExtension_pose =
     \<lparr> thumb = [cmc \<mapsto> 0.4, mcp \<mapsto> 0.6, ip \<mapsto> 0.5],
       index = [mcp \<mapsto> 0.8, pip \<mapsto> 0.85, dip \<mapsto> 0.75],
       pinky = [mcp \<mapsto> 0, pip \<mapsto> 0, dip \<mapsto> 0],
       name = ''Pinky Extension'',
       description = ''Pinky finger extended, others flexed'' \<rparr>"

definition indexPinkySpan_pose :: hand_pose where
  "indexPinkySpan_pose =
     \<lparr> thumb = [cmc \<mapsto> 0.5, mcp \<mapsto> 0.4, ip \<mapsto> 0.3],
       index = [mcp \<mapsto> 0, pip \<mapsto> 0, dip \<mapsto> 0],
       pinky = [mcp \<mapsto> 0, pip \<mapsto> 0, dip \<mapsto> 0],
       name = ''Index-Pinky Span'',
       description = ''Index and pinky extended and spread'' \<rparr>"

definition thumbOpposition_pose :: hand_pose where
  "thumbOpposition_pose =
     \<lparr> thumb = [cmc \<mapsto> 0.9, mcp \<mapsto> 0.3, ip \<mapsto> 0.2],
       index = [mcp \<mapsto> 0.2, pip \<mapsto> 0.25, dip \<mapsto> 0.15],
       pinky = [mcp \<mapsto> 0.25, pip \<mapsto> 0.3, dip \<mapsto> 0.2],
       name = ''Thumb Opposition'',
       description = ''Thumb opposed across palm'' \<rparr>"

definition thumbPinkyPinch_pose :: hand_pose where
  "thumbPinkyPinch_pose =
     \<lparr> thumb = [cmc \<mapsto> 1, mcp \<mapsto> 0.75, ip \<mapsto> 0.6],
       index = [mcp \<mapsto> 0.25, pip \<mapsto> 0.3, dip \<mapsto> 0.2],
       pinky = [mcp \<mapsto> 0.7, pip \<mapsto> 0.75, dip \<mapsto> 0.6],
       name = ''Thumb-Pinky Pinch'',
       description = ''Thumb and pinky pinch, index relaxed'' \<rparr>"

definition threeFingerPinch_pose :: hand_pose where
  "threeFingerPinch_pose =
     \<lparr> thumb = [cmc \<mapsto> 0.9, mcp \<mapsto> 0.7, ip \<mapsto> 0.55],
       index = [mcp \<mapsto> 0.6, pip \<mapsto> 0.65, dip \<mapsto> 0.5],
       pinky = [mcp \<mapsto> 0.65, pip \<mapsto> 0.7, dip \<mapsto> 0.55],
       name = ''Three Finger Pinch'',
       description = ''Thumb, index, and pinky meet'' \<rparr>"

definition indexHook_pose :: hand_pose where
  "indexHook_pose =
     \<lparr> thumb = [cmc \<mapsto> 0.2, mcp \<mapsto> 0.2, ip \<mapsto> 0.15],
       index = [mcp \<mapsto> 0.1, pip \<mapsto> 0.9, dip \<mapsto> 0.85],
       pinky = [mcp \<mapsto> 0.25, pip \<mapsto> 0.3, dip \<mapsto> 0.2],
       name = ''Index Hook'',
       description = ''Index finger hooked, others relaxed'' \<rparr>"

definition pinkyHook_pose :: hand_pose where
  "pinkyHook_pose =
     \<lparr> thumb = [cmc \<mapsto> 0.2, mcp \<mapsto> 0.2, ip \<mapsto> 0.15],
       index = [mcp \<mapsto> 0.2, pip \<mapsto> 0.25, dip \<mapsto> 0.15],
       pinky = [mcp \<mapsto> 0.1, pip \<mapsto> 0.9, dip \<mapsto> 0.85],
       name = ''Pinky Hook'',
       description = ''Pinky finger hooked, others relaxed'' \<rparr>"

text \<open>
  \<^verbatim>\<open>HAND_POSES\<close>, an object literal: its own properties in the order the source
  writes them, which is the order \<^verbatim>\<open>Object.keys\<close> lists them in.
\<close>

definition HAND_POSES :: "(string \<times> hand_pose) list" where
  "HAND_POSES =
     [(''neutral'', neutral_pose),
      (''open'', open_pose),
      (''closedGrasp'', closedGrasp_pose),
      (''thumbIndexPinch'', thumbIndexPinch_pose),
      (''indexExtension'', indexExtension_pose),
      (''pinkyExtension'', pinkyExtension_pose),
      (''indexPinkySpan'', indexPinkySpan_pose),
      (''thumbOpposition'', thumbOpposition_pose),
      (''thumbPinkyPinch'', thumbPinkyPinch_pose),
      (''threeFingerPinch'', threeFingerPinch_pose),
      (''indexHook'', indexHook_pose),
      (''pinkyHook'', pinkyHook_pose)]"

text \<open>\<^verbatim>\<open>export const POSE_NAMES = Object.keys(HAND_POSES);\<close>\<close>

definition POSE_NAMES :: "string list" where
  "POSE_NAMES = map fst HAND_POSES"

text \<open>
  Reading a property \<^verbatim>\<open>obj[key]\<close> of an object literal. The literal inherits from
  \<^verbatim>\<open>Object.prototype\<close>: a key that is not an own property is looked up there, and
  only a key found in neither place reads as \<^verbatim>\<open>undefined\<close>. The members of
  \<^verbatim>\<open>Object.prototype\<close> are functions (and, for \<^verbatim>\<open>__proto__\<close>, the prototype
  object itself); they are represented by their key.
\<close>

datatype 'a js_value = Own 'a | Inherited string | Undefined

definition object_prototype_keys :: "string list" where
  "object_prototype_keys =
     [''constructor'', ''hasOwnProperty'', ''isPrototypeOf'', ''propertyIsEnumerable'',
      ''toLocaleString'', ''toString'', ''valueOf'', ''__proto__'',
      ''__defineGetter__'', ''__defineSetter__'', ''__lookupGetter__'', ''__lookupSetter__'']"

definition js_get :: "(string \<times> 'a) list \<Rightarrow> string \<Rightarrow> 'a js_value" where
  "js_get obj key =
     (case map_of obj key of
        Some v \<Rightarrow> Own v
      | None \<Rightarrow> if key \<in> set object_prototype_keys then Inherited key else Undefined)"

text \<open>
  A property key is a string; \<^verbatim>\<open>undefined\<close> used as a key (here \<^const>\<open>None\<close>) is
  converted to the string \<^verbatim>\<open>"undefined"\<close>.
\<close>

definition property_key :: "string option \<Rightarrow> string" where
  "property_key k = (case k of None \<Rightarrow> ''undefined'' | Some s \<Rightarrow> s)"

text \<open>
  \<^verbatim>\<open>getPose = (poseName) => HAND_POSES[poseName] || HAND_POSES.neutral\<close>. Objects
  and functions are truthy, \<^verbatim>\<open>undefined\<close> is falsy.
\<close>

definition getPose :: "string option \<Rightarrow> hand_pose js_value" where
  "getPose poseName =
     (case js_get HAND_POSES (property_key poseName) of
        Undefined \<Rightarrow> js_get HAND_POSES ''neutral''
      | v \<Rightarrow> v)"

section \<open>Sample logger test\<close>

text \<open>
  The remainder operator \<^verbatim>\<open>x % y\<close> on numbers, for a nonzero divisor: the quotient is
  truncated toward zero, so the result has the sign of \<open>x\<close>. (The divisor below is
  \<^verbatim>\<open>1000 / settings.logFrameRate\<close> with a positive frame rate.)
\<close>

definition js_trunc :: "real \<Rightarrow> int" where
  "js_trunc q = (if 0 \<le> q then \<lfloor>q\<rfloor> else \<lceil>q\<rceil>)"

definition js_rem :: "real \<Rightarrow> real \<Rightarrow> real" where
  "js_rem x y = x - y * of_int (js_trunc (x / y))"

text \<open>
  The test the three animation loops make before \<^verbatim>\<open>logDataPoint\<close>:
  \<^verbatim>\<open>newTime % logInterval < deltaTime\<close>.
\<close>

definition logDue :: "real \<Rightarrow> real \<Rightarrow> real \<Rightarrow> bool" where
  "logDue newTime logInterval deltaTime \<longleftrightarrow> js_rem newTime logInterval < deltaTime"

section \<open>Session state shared by the motion components\<close>

text \<open>
  The three motion components keep the same refs for the animation loop. The record
  holds the refs (and the two React flags) that decide timing: \<^verbatim>\<open>isRunning\<close>,
  \<^verbatim>\<open>isPaused\<close>, \<^verbatim>\<open>sessionStarted\<close>, \<^verbatim>\<open>lastTimestampRef\<close>, \<^verbatim>\<open>sessionStartTimeRef\<close>,
  \<^verbatim>\<open>phaseRef\<close>, \<^verbatim>\<open>timeInPhaseRef\<close>, the index ref (\<^verbatim>\<open>currentPoseIndexRef\<close>,
  \<^verbatim>\<open>currentTrialIndexRef\<close>) and the sequence ref (\<^verbatim>\<open>poseSequenceRef\<close>,
  \<^verbatim>\<open>trialSequenceRef\<close>). A ref holding \<^verbatim>\<open>null\<close> is \<^const>\<open>None\<close>.

  The pose refs, the progress fractions and the mirrored React display state are
  written by the loops but never read by a test on phase, time, index or beat, so
  they are left out of the state.
\<close>

record ('ph, 'n) session =
  isRunning :: bool
  isPaused :: bool
  sessionStarted :: bool
  lastTimestamp :: "real option"
  sessionStartTime :: "real option"
  phase :: 'ph
  timeInPhase :: real
  currentIndex :: nat
  sequence :: "'n list"

text \<open>\<^verbatim>\<open>!ref.current\<close> for a ref holding \<^verbatim>\<open>null\<close> or a number: true for \<^verbatim>\<open>null\<close> and for \<open>0\<close>.\<close>

definition falsy :: "real option \<Rightarrow> bool" where
  "falsy x \<longleftrightarrow> x = None \<or> x = Some 0"

text \<open>A ref's value in arithmetic: \<^verbatim>\<open>null\<close> converts to \<open>0\<close>.\<close>

definition to_number :: "real option \<Rightarrow> real" where
  "to_number x = (case x of None \<Rightarrow> 0 | Some v \<Rightarrow> v)"

text \<open>
  \<^verbatim>\<open>completeSession\<close>: both flags are cleared and the pending frame is cancelled.
\<close>

definition completeSession :: "('ph, 'n, 'z) session_scheme \<Rightarrow> ('ph, 'n, 'z) session_scheme" where
  "completeSession s = s\<lparr>isRunning := False, isPaused := False\<rparr>"

text \<open>
  A frame callback is pending only while the session runs and is not paused (the
  start/stop effect cancels it otherwise), so a frame reaches \<^verbatim>\<open>animate\<close> only then.
\<close>

definition deliver ::
  "(('ph, 'n, 'z) session_scheme \<Rightarrow> real \<Rightarrow> ('ph, 'n, 'z) session_scheme) \<Rightarrow>
   ('ph, 'n, 'z) session_scheme \<Rightarrow> real \<Rightarrow> ('ph, 'n, 'z) session_scheme" where
  "deliver anim s timestamp = (if isRunning s \<and> \<not> isPaused s then anim s timestamp else s)"

text \<open>
  Feeding frames by their delta times: each frame's timestamp is the previous frame's
  timestamp plus the delta.
\<close>

fun feed ::
  "(('ph, 'n, 'z) session_scheme \<Rightarrow> real \<Rightarrow> ('ph, 'n, 'z) session_scheme) \<Rightarrow>
   ('ph, 'n, 'z) session_scheme \<Rightarrow> real list \<Rightarrow> ('ph, 'n, 'z) session_scheme" where
  "feed anim s [] = s"
| "feed anim s (d # ds) = feed anim (deliver anim s (to_number (lastTimestamp s) + d)) ds"

text \<open>
  The events of a session: a frame with its timestamp, the Start / Resume button
  (\<^verbatim>\<open>startSession\<close>) and the Pause button (\<^verbatim>\<open>pauseSession\<close>, which toggles
  \<^verbatim>\<open>isPaused\<close>).
\<close>

datatype event = Frame real | StartButton | PauseButton

section \<open>Continuous-transition component (src/unnamed/part\_000)\<close>

datatype continuous_phase = CRest | CTransition

text \<open>
  The settings and the log of this component and of the periodic one carry the
  prefixes \<open>c_\<close> and \<open>p_\<close>, which keep fields of the same name in different
  components apart.
\<close>

record continuous_settings =
  c_restDuration :: real
  c_transitionDuration :: real
  c_logFrameRate :: real

text \<open>A logged data point: timestamp, session time, phase and pose index.\<close>

record 'ph data_point =
  dp_timestamp :: real
  dp_sessionTime :: real
  dp_phase :: 'ph
  dp_index :: nat

record continuous_state = "(continuous_phase, string) session" +
  c_dataLog :: "continuous_phase data_point list"

text \<open>\<^verbatim>\<open>logDataPoint\<close>, appending to \<^verbatim>\<open>dataLog\<close>.\<close>

definition c_logDataPoint :: "continuous_state \<Rightarrow> real \<Rightarrow> continuous_phase \<Rightarrow> continuous_state" where
  "c_logDataPoint s timestamp phaseName =
     s\<lparr>c_dataLog := c_dataLog s @
        [\<lparr>dp_timestamp = timestamp,
          dp_sessionTime = timestamp - to_number (sessionStartTime s),
          dp_phase = phaseName,
          dp_index = currentIndex s\<rparr>]\<rparr>"

text \<open>
  \<^verbatim>\<open>currentPhase === 'rest' ? settings.restDuration : settings.transitionDuration\<close>
\<close>

definition continuous_duration :: "continuous_settings \<Rightarrow> continuous_phase \<Rightarrow> real" where
  "continuous_duration settings p =
     (if p = CRest then c_restDuration settings else c_transitionDuration settings)"

text \<open>
  \<^verbatim>\<open>animate\<close> of the continuous-transition component. Both phase branches make the
  same logging test; the transition block follows it.
\<close>

definition animate_continuous ::
  "continuous_settings \<Rightarrow> continuous_state \<Rightarrow> real \<Rightarrow> continuous_state" where
  "animate_continuous settings s timestamp =
     (let s1 = (if falsy (lastTimestamp s)
                then s\<lparr>lastTimestamp := Some timestamp, sessionStartTime := Some timestamp\<rparr>
                else s);
          deltaTime = timestamp - to_number (lastTimestamp s1);
          s2 = s1\<lparr>lastTimestamp := Some timestamp\<rparr>;
          currentPhase = phase s2;
          currentPhaseDuration = continuous_duration settings currentPhase;
          newTime = timeInPhase s2 + deltaTime;
          s3 = s2\<lparr>timeInPhase := newTime\<rparr>;
          logInterval = 1000 / c_logFrameRate settings;
          s4 = (if logDue newTime logInterval deltaTime
                then c_logDataPoint s3 timestamp currentPhase else s3)
      in if newTime \<ge> currentPhaseDuration then
           (if currentPhase = CRest then
              (let nextIndex = currentIndex s4 + 1
               in if nextIndex \<ge> length (sequence s4) then completeSession s4
                  else s4\<lparr>currentIndex := nextIndex, phase := CTransition, timeInPhase := 0\<rparr>)
            else s4\<lparr>phase := CRest, timeInPhase := 0\<rparr>)
         else s4)"

text \<open>
  The start/stop effect, which React runs whenever \<^verbatim>\<open>isRunning\<close> or \<^verbatim>\<open>isPaused\<close>
  has changed: when the session runs unpaused it clears \<^verbatim>\<open>lastTimestampRef\<close>, sets
  \<^verbatim>\<open>timeInPhaseRef\<close> to \<open>0\<close> and requests a frame; otherwise it cancels the frame.
\<close>

definition startStopEffect :: "('ph, 'n, 'z) session_scheme \<Rightarrow> ('ph, 'n, 'z) session_scheme" where
  "startStopEffect s =
     (if isRunning s \<and> \<not> isPaused s then s\<lparr>lastTimestamp := None, timeInPhase := 0\<rparr> else s)"

text \<open>\<^verbatim>\<open>pauseSession\<close> toggles \<^verbatim>\<open>isPaused\<close>, so the effect runs after it.\<close>

definition pauseSession_continuous :: "continuous_state \<Rightarrow> continuous_state" where
  "pauseSession_continuous s = startStopEffect (s\<lparr>isPaused := \<not> isPaused s\<rparr>)"

text \<open>
  \<^verbatim>\<open>startSession\<close>: the first start empties the log; the effect runs only if one of
  the two flags has changed.
\<close>

definition startSession_continuous :: "continuous_state \<Rightarrow> continuous_state" where
  "startSession_continuous s =
     (let s1 = (if \<not> sessionStarted s then s\<lparr>sessionStarted := True, c_dataLog := []\<rparr> else s);
          s2 = s1\<lparr>isRunning := True, isPaused := False\<rparr>
      in if isRunning s \<and> \<not> isPaused s then s2 else startStopEffect s2)"

fun run_continuous ::
  "continuous_settings \<Rightarrow> continuous_state \<Rightarrow> event list \<Rightarrow> continuous_state" where
  "run_continuous settings s [] = s"
| "run_continuous settings s (Frame t # es) =
     run_continuous settings (deliver (animate_continuous settings) s t) es"
| "run_continuous settings s (StartButton # es) =
     run_continuous settings (startSession_continuous s) es"
| "run_continuous settings s (PauseButton # es) =
     run_continuous settings (pauseSession_continuous s) es"

text \<open>
  The component as mounted, with a pose sequence: not running, phase \<^verbatim>\<open>'rest'\<close>,
  every counter at its initial value.
\<close>

definition initial_continuous :: "string list \<Rightarrow> continuous_state" where
  "initial_continuous poseSequence =
     \<lparr> isRunning = False, isPaused = False, sessionStarted = False,
       lastTimestamp = None, sessionStartTime = None,
       phase = CRest, timeInPhase = 0, currentIndex = 0, sequence = poseSequence,
       c_dataLog = [] \<rparr>"

section \<open>Trial-based component (src/unnamed/part\_002)\<close>

datatype trial_phase = Rest | Preparation | Execution | ReturnCue

text \<open>\<^verbatim>\<open>const PHASE_ORDER = ['rest', 'preparation', 'execution', 'returnCue'];\<close>\<close>

definition PHASE_ORDER :: "trial_phase list" where
  "PHASE_ORDER = [Rest, Preparation, Execution, ReturnCue]"

record trial_settings =
  preparationDuration :: real
  executionDuration :: real
  returnCueDuration :: real
  restDuration :: real

text \<open>\<^verbatim>\<open>getPhaseDuration\<close>, in the order of its \<^verbatim>\<open>switch\<close>.\<close>

fun getPhaseDuration :: "trial_settings \<Rightarrow> trial_phase \<Rightarrow> real" where
  "getPhaseDuration settings Preparation = preparationDuration settings"
| "getPhaseDuration settings Execution = executionDuration settings"
| "getPhaseDuration settings ReturnCue = returnCueDuration settings"
| "getPhaseDuration settings Rest = restDuration settings"

text \<open>\<^verbatim>\<open>Array.prototype.indexOf\<close>: the first position of the element, or \<open>-1\<close>.\<close>

fun indexOf :: "'a list \<Rightarrow> 'a \<Rightarrow> int" where
  "indexOf [] x = - 1"
| "indexOf (y # ys) x =
     (if y = x then 0 else (let i = indexOf ys x in if i < 0 then - 1 else i + 1))"

text \<open>
  The sequence of this component may hold \<^verbatim>\<open>undefined\<close> entries, so an entry is a
  \<^typ>\<open>string option\<close>.
\<close>

type_synonym trial_state = "(trial_phase, string option) session"

text \<open>
  \<^verbatim>\<open>animate\<close> of the trial-based component: the clock, the time in phase, and the
  phase-transition block.
\<close>

definition animate_trial :: "trial_settings \<Rightarrow> trial_state \<Rightarrow> real \<Rightarrow> trial_state" where
  "animate_trial settings s timestamp =
     (let s1 = (if falsy (lastTimestamp s)
                then s\<lparr>lastTimestamp := Some timestamp, sessionStartTime := Some timestamp\<rparr>
                else s);
          deltaTime = timestamp - to_number (lastTimestamp s1);
          s2 = s1\<lparr>lastTimestamp := Some timestamp\<rparr>;
          currentPhase = phase s2;
          currentPhaseDuration = getPhaseDuration settings currentPhase;
          newTime = timeInPhase s2 + deltaTime;
          s3 = s2\<lparr>timeInPhase := newTime\<rparr>
      in if newTime \<ge> currentPhaseDuration then
           (let currentPhaseIdx = indexOf PHASE_ORDER currentPhase
            in if currentPhaseIdx < int (length PHASE_ORDER) - 1 then
                 s3\<lparr>phase := PHASE_ORDER ! nat (currentPhaseIdx + 1), timeInPhase := 0\<rparr>
               else
                 (let nextIndex = currentIndex s3 + 1
                  in if nextIndex \<ge> length (sequence s3) then completeSession s3
                     else s3\<lparr>currentIndex := nextIndex, phase := Rest, timeInPhase := 0\<rparr>))
         else s3)"

text \<open>\<^verbatim>\<open>pauseSession\<close> and \<^verbatim>\<open>startSession\<close> of the trial-based component.\<close>

definition pauseSession_trial :: "trial_state \<Rightarrow> trial_state" where
  "pauseSession_trial s = startStopEffect (s\<lparr>isPaused := \<not> isPaused s\<rparr>)"

definition startSession_trial :: "trial_state \<Rightarrow> trial_state" where
  "startSession_trial s =
     (let s1 = (if \<not> sessionStarted s then s\<lparr>sessionStarted := True, phase := Rest\<rparr> else s);
          s2 = s1\<lparr>isRunning := True, isPaused := False\<rparr>
      in if isRunning s \<and> \<not> isPaused s then s2 else startStopEffect s2)"

definition initial_trial :: "string option list \<Rightarrow> trial_state" where
  "initial_trial poseSequence =
     \<lparr> isRunning = False, isPaused = False, sessionStarted = False,
       lastTimestamp = None, sessionStartTime = None,
       phase = Rest, timeInPhase = 0, currentIndex = 0, sequence = poseSequence \<rparr>"

fun run_trial :: "trial_settings \<Rightarrow> trial_state \<Rightarrow> event list \<Rightarrow> trial_state" where
  "run_trial settings s [] = s"
| "run_trial settings s (Frame t # es) =
     run_trial settings (deliver (animate_trial settings) s t) es"
| "run_trial settings s (StartButton # es) = run_trial settings (startSession_trial s) es"
| "run_trial settings s (PauseButton # es) = run_trial settings (pauseSession_trial s) es"

section \<open>Periodic component (src/src/components/PeriodicMotionMode.jsx)\<close>

datatype periodic_phase = Prep | Active

record periodic_settings =
  prepDuration :: real
  activeDuration :: real
  frequency :: real
  p_logFrameRate :: real

text \<open>\<^verbatim>\<open>const beatInterval = useMemo(() => 1000 / settings.frequency, ...)\<close>\<close>

definition beatInterval :: "periodic_settings \<Rightarrow> real" where
  "beatInterval settings = 1000 / frequency settings"

text \<open>A logged data point of the periodic component carries the beat fields too.\<close>

record periodic_data_point = "periodic_phase data_point" +
  dp_beatNumber :: nat
  dp_movingToTarget :: bool

text \<open>
  The periodic component adds \<^verbatim>\<open>isMovingToTargetRef\<close>, \<^verbatim>\<open>beatCountRef\<close> and
  \<^verbatim>\<open>lastBeatTimeRef\<close>. The field \<open>beatEvents\<close> is not a ref of the source: it
  records, in order, the value \<^verbatim>\<open>newMovingToTarget\<close> of every run of the beat branch
  (the branch that plays the metronome tick and calls \<^verbatim>\<open>setIsMovingToTarget\<close>), so
  that the beats of a trial can be counted after the trial has ended and
  \<^verbatim>\<open>beatCountRef\<close> has been cleared.
\<close>

record periodic_state = "(periodic_phase, string) session" +
  isMovingToTarget :: bool
  beatCount :: nat
  lastBeatTime :: real
  p_dataLog :: "periodic_data_point list"
  beatEvents :: "bool list"

definition p_logDataPoint ::
  "periodic_state \<Rightarrow> real \<Rightarrow> periodic_phase \<Rightarrow> nat \<Rightarrow> bool \<Rightarrow> periodic_state" where
  "p_logDataPoint s timestamp phaseName beatNum movingToTarget =
     s\<lparr>p_dataLog := p_dataLog s @
        [\<lparr>dp_timestamp = timestamp,
          dp_sessionTime = timestamp - to_number (sessionStartTime s),
          dp_phase = phaseName,
          dp_index = currentIndex s,
          dp_beatNumber = beatNum,
          dp_movingToTarget = movingToTarget\<rparr>]\<rparr>"

text \<open>The beat branch of \<^verbatim>\<open>animate\<close>, taken in the active phase.\<close>

definition beat :: "periodic_settings \<Rightarrow> periodic_state \<Rightarrow> real \<Rightarrow> periodic_state" where
  "beat settings s timestamp =
     (let timeSinceLastBeat = timestamp - lastBeatTime s
      in if timeSinceLastBeat \<ge> beatInterval settings then
           (let newMovingToTarget = \<not> isMovingToTarget s
            in s\<lparr>lastBeatTime := timestamp,
                 isMovingToTarget := newMovingToTarget,
                 beatCount := beatCount s + 1,
                 beatEvents := beatEvents s @ [newMovingToTarget]\<rparr>)
         else s)"

text \<open>
  \<^verbatim>\<open>currentPhase === 'prep' ? settings.prepDuration : settings.activeDuration\<close>
\<close>

definition periodic_duration :: "periodic_settings \<Rightarrow> periodic_phase \<Rightarrow> real" where
  "periodic_duration settings p =
     (if p = Prep then prepDuration settings else activeDuration settings)"

definition animate_periodic ::
  "periodic_settings \<Rightarrow> periodic_state \<Rightarrow> real \<Rightarrow> periodic_state" where
  "animate_periodic settings s timestamp =
     (let s1 = (if falsy (lastTimestamp s)
                then s\<lparr>lastTimestamp := Some timestamp, sessionStartTime := Some timestamp,
                       lastBeatTime := timestamp\<rparr>
                else s);
          deltaTime = timestamp - to_number (lastTimestamp s1);
          s2 = s1\<lparr>lastTimestamp := Some timestamp\<rparr>;
          currentPhase = phase s2;
          currentPhaseDuration = periodic_duration settings currentPhase;
          newTime = timeInPhase s2 + deltaTime;
          s3 = s2\<lparr>timeInPhase := newTime\<rparr>;
          logInterval = 1000 / p_logFrameRate settings;
          s4 = (if currentPhase = Prep then
                  (if logDue newTime logInterval deltaTime
                   then p_logDataPoint s3 timestamp Prep 0 False else s3)
                else
                  (let b = beat settings s3 timestamp
                   in if logDue newTime logInterval deltaTime
                      then p_logDataPoint b timestamp Active (beatCount b) (isMovingToTarget b)
                      else b))
      in if newTime \<ge> currentPhaseDuration then
           (if currentPhase = Prep then
              s4\<lparr>phase := Active, timeInPhase := 0, beatCount := 0,
                 isMovingToTarget := False, lastBeatTime := timestamp\<rparr>
            else
              (let nextTrialIndex = currentIndex s4 + 1
               in if nextTrialIndex \<ge> length (sequence s4) then completeSession s4
                  else s4\<lparr>currentIndex := nextTrialIndex, phase := Prep, timeInPhase := 0,
                          beatCount := 0, isMovingToTarget := False\<rparr>))
         else s4)"

text \<open>
  The start/stop effect of the periodic component also sets \<^verbatim>\<open>lastBeatTimeRef\<close> to
  \<open>0\<close>.
\<close>

definition startStopEffect_periodic :: "periodic_state \<Rightarrow> periodic_state" where
  "startStopEffect_periodic s =
     (if isRunning s \<and> \<not> isPaused s
      then s\<lparr>lastTimestamp := None, timeInPhase := 0, lastBeatTime := 0\<rparr> else s)"

definition pauseSession_periodic :: "periodic_state \<Rightarrow> periodic_state" where
  "pauseSession_periodic s = startStopEffect_periodic (s\<lparr>isPaused := \<not> isPaused s\<rparr>)"

definition startSession_periodic :: "periodic_state \<Rightarrow> periodic_state" where
  "startSession_periodic s =
     (let s1 = (if \<not> sessionStarted s then s\<lparr>sessionStarted := True, p_dataLog := []\<rparr> else s);
          s2 = s1\<lparr>isRunning := True, isPaused := False\<rparr>
      in if isRunning s \<and> \<not> isPaused s then s2 else startStopEffect_periodic s2)"

fun run_periodic ::
  "periodic_settings \<Rightarrow> periodic_state \<Rightarrow> event list \<Rightarrow> periodic_state" where
  "run_periodic settings s [] = s"
| "run_periodic settings s (Frame t # es) =
     run_periodic settings (deliver (animate_periodic settings) s t) es"
| "run_periodic settings s (StartButton # es) =
     run_periodic settings (startSession_periodic s) es"
| "run_periodic settings s (PauseButton # es) =
     run_periodic settings (pauseSession_periodic s) es"

definition initial_periodic :: "string list \<Rightarrow> periodic_state" where
  "initial_periodic trialSequence =
     \<lparr> isRunning = False, isPaused = False, sessionStarted = False,
       lastTimestamp = None, sessionStartTime = None,
       phase = Prep, timeInPhase = 0, currentIndex = 0, sequence = trialSequence,
       isMovingToTarget = False, beatCount = 0, lastBeatTime = 0,
       p_dataLog = [], beatEvents = [] \<rparr>"

section \<open>Balanced block sequence (src/unnamed/part\_002, sequence-initialization effect)\<close>

text \<open>
  A JavaScript array whose elements may be \<^verbatim>\<open>undefined\<close> is a list of options.
  Reading past the end gives \<^verbatim>\<open>undefined\<close>; writing past the end extends the array,
  the skipped positions reading as \<^verbatim>\<open>undefined\<close>.
\<close>

definition js_index :: "'a option list \<Rightarrow> nat \<Rightarrow> 'a option" where
  "js_index a i = (if i < length a then a ! i else None)"

definition js_store :: "'a option list \<Rightarrow> nat \<Rightarrow> 'a option \<Rightarrow> 'a option list" where
  "js_store a i v =
     (if i < length a then a[i := v] else a @ replicate (i - length a) None @ [v])"

text \<open>
  The destructuring swap \<^verbatim>\<open>[a[i], a[j]] = [a[j], a[i]]\<close>: both reads first, then the
  write to \<^verbatim>\<open>a[i]\<close>, then the write to \<^verbatim>\<open>a[j]\<close>.
\<close>

definition js_swap :: "'a option list \<Rightarrow> nat \<Rightarrow> nat \<Rightarrow> 'a option list" where
  "js_swap a i j =
     (let fromJ = js_index a j; fromI = js_index a i
      in js_store (js_store a i fromJ) j fromI)"

text \<open>
  \<^verbatim>\<open>Math.random()\<close> is a stream of numbers \<open>rs 0, rs 1, \<dots>\<close> in \<open>[0, 1)\<close> and a count of
  the numbers drawn so far, which every function that draws returns updated.
\<close>

definition unit_stream :: "(nat \<Rightarrow> real) \<Rightarrow> bool" where
  "unit_stream rs \<longleftrightarrow> (\<forall>k. 0 \<le> rs k \<and> rs k < 1)"

text \<open>
  \<^verbatim>\<open>shuffle\<close>: the loop \<^verbatim>\<open>for (let i = a.length - 1; i > 0; i--)\<close> with
  \<^verbatim>\<open>j = Math.floor(Math.random() * (i + 1))\<close>.
\<close>

fun shuffle_loop :: "(nat \<Rightarrow> real) \<Rightarrow> nat \<Rightarrow> 'a option list \<times> nat \<Rightarrow> 'a option list \<times> nat" where
  "shuffle_loop rs 0 (a, k) = (a, k)"
| "shuffle_loop rs (Suc i) (a, k) =
     (let j = nat \<lfloor>rs k * real (Suc i + 1)\<rfloor>
      in shuffle_loop rs i (js_swap a (Suc i) j, k + 1))"

definition shuffle :: "(nat \<Rightarrow> real) \<Rightarrow> 'a option list \<times> nat \<Rightarrow> 'a option list \<times> nat" where
  "shuffle rs st = shuffle_loop rs (length (fst st) - 1) st"

text \<open>
  One pass of the \<^verbatim>\<open>while\<close> loop: shuffle the pool into a block, repair the block
  boundary, push the block.
\<close>

definition append_block ::
  "string list \<Rightarrow> (nat \<Rightarrow> real) \<Rightarrow> string option list \<times> nat \<Rightarrow> string option list \<times> nat" where
  "append_block pool rs st =
     (let sequence = fst st;
          shuffled = shuffle rs (map Some pool, snd st);
          block = fst shuffled;
          k = snd shuffled
      in if length sequence > 0 \<and> js_index block 0 = js_index sequence (length sequence - 1)
         then
           (let swapIdx = 1 + \<lfloor>rs k * of_int (int (length block) - 1)\<rfloor>
            in (sequence @ js_swap block 0 (nat swapIdx), k + 1))
         else (sequence @ block, k))"

text \<open>\<^verbatim>\<open>while (sequence.length < settings.numTargets) { ... }\<close>\<close>

partial_function (option) build_sequence ::
  "string list \<Rightarrow> nat \<Rightarrow> (nat \<Rightarrow> real) \<Rightarrow> string option list \<times> nat \<Rightarrow>
   (string option list \<times> nat) option" where
  "build_sequence pool numTargets rs st =
     (if length (fst st) < numTargets
      then build_sequence pool numTargets rs (append_block pool rs st)
      else Some st)"

declare build_sequence.simps [code]

text \<open>
  \<^verbatim>\<open>getEnabledPoseNames\<close> and the effect's result \<^verbatim>\<open>finalSequence\<close>: the pool is the
  enabled names, or all names when none is enabled; the sequence is trimmed to
  \<^verbatim>\<open>numTargets\<close>.
\<close>

definition getEnabledPoseNames :: "(string \<Rightarrow> bool) \<Rightarrow> string list" where
  "getEnabledPoseNames enabledPoses = filter enabledPoses POSE_NAMES"

definition finalSequence ::
  "(string \<Rightarrow> bool) \<Rightarrow> nat \<Rightarrow> (nat \<Rightarrow> real) \<Rightarrow> string option list option" where
  "finalSequence enabledPoses numTargets rs =
     (let availablePoses = getEnabledPoseNames enabledPoses;
          pool = (if length availablePoses > 0 then availablePoses else POSE_NAMES)
      in map_option (\<lambda>st. take numTargets (fst st))
           (build_sequence pool numTargets rs ([], 0)))"

section \<open>Default settings\<close>

text \<open>The initial \<^verbatim>\<open>settings\<close> state of each component.\<close>

definition default_continuous_settings :: continuous_settings where
  "default_continuous_settings =
     \<lparr>c_restDuration = 2000, c_transitionDuration = 1200, c_logFrameRate = 30\<rparr>"

definition default_trial_settings :: trial_settings where
  "default_trial_settings =
     \<lparr>preparationDuration = 1000, executionDuration = 4000, returnCueDuration = 500,
      restDuration = 2000\<rparr>"

definition default_periodic_settings :: periodic_settings where
  "default_periodic_settings =
     \<lparr>prepDuration = 2000, activeDuration = 10000, frequency = 0.8, p_logFrameRate = 30\<rparr>"

section \<open>Observations used to state the properties\<close>

text \<open>
  The phase that follows a phase in a cyclic phase ordering, and the orderings of the
  continuous-transition component (rest, transition) and of the periodic component
  (prep, active), which the source writes as two-way tests rather than as arrays.
\<close>

definition successor :: "'a list \<Rightarrow> 'a \<Rightarrow> 'a" where
  "successor order p = order ! ((nat (indexOf order p) + 1) mod length order)"

definition CONTINUOUS_ORDER :: "continuous_phase list" where
  "CONTINUOUS_ORDER = [CRest, CTransition]"

definition PERIODIC_ORDER :: "periodic_phase list" where
  "PERIODIC_ORDER = [Prep, Active]"

text \<open>
  A session that runs unpaused, whose last frame came at time \<open>l\<close>, in phase \<open>p\<close> of
  trial \<open>i\<close>, \<open>\<tau>\<close> milliseconds into the phase, with a sequence of \<open>n\<close> entries.
  The frame clock takes a last timestamp of \<open>0\<close> for an unset one, so the statements
  about such a session take \<open>l\<close> positive, as the timestamps of
  \<^verbatim>\<open>requestAnimationFrame\<close> are.
\<close>

definition running_at ::
  "('ph, 'n, 'z) session_scheme \<Rightarrow> real \<Rightarrow> 'ph \<Rightarrow> nat \<Rightarrow> real \<Rightarrow> nat \<Rightarrow> bool" where
  "running_at s l p i \<tau> n \<longleftrightarrow>
     isRunning s \<and> \<not> isPaused s \<and> lastTimestamp s = Some l \<and> phase s = p \<and>
     currentIndex s = i \<and> timeInPhase s = \<tau> \<and> length (sequence s) = n"

text \<open>
  A frame ends a phase when it changes the phase or the index, or completes the
  session. \<open>phase_ends\<close> counts the frames of a feed that end a phase, and
  \<open>completions\<close> those that complete the session.
\<close>

definition ends_phase ::
  "('ph, 'n, 'z) session_scheme \<Rightarrow> ('ph, 'n, 'z) session_scheme \<Rightarrow> bool" where
  "ends_phase s s' \<longleftrightarrow>
     phase s' \<noteq> phase s \<or> currentIndex s' \<noteq> currentIndex s \<or> isRunning s' \<noteq> isRunning s"

fun phase_ends ::
  "(('ph, 'n, 'z) session_scheme \<Rightarrow> real \<Rightarrow> ('ph, 'n, 'z) session_scheme) \<Rightarrow>
   ('ph, 'n, 'z) session_scheme \<Rightarrow> real list \<Rightarrow> nat" where
  "phase_ends anim s [] = 0"
| "phase_ends anim s (d # ds) =
     (let s' = deliver anim s (to_number (lastTimestamp s) + d)
      in (if ends_phase s s' then 1 else 0) + phase_ends anim s' ds)"

fun completions ::
  "(('ph, 'n, 'z) session_scheme \<Rightarrow> real \<Rightarrow> ('ph, 'n, 'z) session_scheme) \<Rightarrow>
   ('ph, 'n, 'z) session_scheme \<Rightarrow> real list \<Rightarrow> nat" where
  "completions anim s [] = 0"
| "completions anim s (d # ds) =
     (let s' = deliver anim s (to_number (lastTimestamp s) + d)
      in (if isRunning s \<and> \<not> isRunning s' then 1 else 0) + completions anim s' ds)"

text \<open>
  The one-frame behaviour the three animation loops share, as a property of an
  animation function \<open>anim\<close>: \<open>dur\<close> gives the duration of a phase, \<open>nxt\<close> the phase
  that follows it, and \<open>bumps p\<close> says that leaving \<open>p\<close> moves to the next sequence
  entry (or completes the session after the last one).
\<close>

definition phase_machine ::
  "(('ph, 'n, 'z) session_scheme \<Rightarrow> real \<Rightarrow> ('ph, 'n, 'z) session_scheme) \<Rightarrow>
   ('ph \<Rightarrow> real) \<Rightarrow> ('ph \<Rightarrow> 'ph) \<Rightarrow> ('ph \<Rightarrow> bool) \<Rightarrow> bool" where
  "phase_machine anim dur nxt bumps \<longleftrightarrow>
     (\<forall>s l p i \<tau> n d. running_at s l p i \<tau> n \<and> 0 < l \<and> 0 \<le> d \<longrightarrow>
        (if \<tau> + d < dur p then running_at (anim s (l + d)) (l + d) p i (\<tau> + d) n
         else if bumps p \<and> n \<le> i + 1 then
           \<not> isRunning (anim s (l + d)) \<and> lastTimestamp (anim s (l + d)) = Some (l + d)
         else running_at (anim s (l + d)) (l + d) (nxt p) (if bumps p then i + 1 else i) 0 n))"

text \<open>
  The phases of the rest of a session that stands at the start of phase \<open>p\<close> of
  entry \<open>i\<close>, by the ordering alone.
\<close>

fun follows :: "('ph \<Rightarrow> 'ph) \<Rightarrow> ('ph \<Rightarrow> bool) \<Rightarrow> nat \<Rightarrow> 'ph \<Rightarrow> nat \<Rightarrow> 'ph list \<Rightarrow> bool" where
  "follows nxt bumps n p i [] = False"
| "follows nxt bumps n p i (q # qs) =
     (q = p \<and>
      (if bumps p \<and> n \<le> i + 1 then qs = []
       else follows nxt bumps n (nxt p) (if bumps p then i + 1 else i) qs))"


text \<open>
  Frames split into consecutive groups, one for each phase of \<open>qs\<close> in order, the
  deltas of each group non-negative and summing exactly to the duration of its phase.
\<close>

definition exact_groups :: "('ph \<Rightarrow> real) \<Rightarrow> real list list \<Rightarrow> 'ph list \<Rightarrow> bool" where
  "exact_groups dur segs qs \<longleftrightarrow>
     list_all2 (\<lambda>seg q. (\<forall>d\<in>set seg. 0 \<le> d) \<and> sum_list seg = dur q) segs qs"

section \<open>Concrete sessions\<close>

text \<open>
  Sessions used as concrete inputs below: a pool in which only \<^verbatim>\<open>open\<close> is enabled;
  the periodic settings at 1.0 Hz with an active phase of 3000 ms; a periodic session
  1000 ms into its first prep phase; and sessions of the trial-based and the
  continuous-transition component after the Start button and a first frame at
  1000 ms.
\<close>

definition only_open :: "string \<Rightarrow> bool" where
  "only_open poseName \<longleftrightarrow> poseName = ''open''"



definition started_trial :: trial_state where
  "started_trial =
     run_trial default_trial_settings (initial_trial [Some ''open'']) [StartButton, Frame 1000]"

definition started_continuous :: continuous_state where
  "started_continuous =
     run_continuous default_continuous_settings (initial_continuous [''neutral'', ''open''])
       [StartButton, Frame 1000]"

section \<open>Properties of the interpolation utilities\<close>








lemma smoothT_0: "smoothT c 0 = 0"
  by (simp add: smoothT_def easeInOut_def minimumJerk_def)

lemma smoothT_1: "smoothT c 1 = 1"
  by (simp add: smoothT_def easeInOut_def minimumJerk_def)

lemma interpolateJoints_0:
  assumes "dom m1 = dom m2"
  shows "interpolateJoints m1 m2 0 c = m1"
proof
  fix j
  show "interpolateJoints m1 m2 0 c j = m1 j"
  proof (cases "m1 j")
    case None
    then show ?thesis by (simp add: interpolateJoints_def)
  next
    case (Some a)
    with assms obtain b where "m2 j = Some b" by (metis domD domI)
    with Some show ?thesis
      by (simp add: interpolateJoints_def smoothT_0 lerp_def)
  qed
qed

lemma interpolateJoints_1:
  assumes "dom m1 = dom m2"
  shows "interpolateJoints m1 m2 1 c = m2"
proof
  fix j
  show "interpolateJoints m1 m2 1 c j = m2 j"
  proof (cases "m1 j")
    case None
    with assms have "m2 j = None" by (metis domIff)
    with None show ?thesis by (simp add: interpolateJoints_def)
  next
    case (Some a)
    with assms obtain b where "m2 j = Some b" by (metis domD domI)
    with Some show ?thesis
      by (simp add: interpolateJoints_def smoothT_1 lerp_def)
  qed
qed


lemma full_pose_doms:
  assumes "full_pose A" "full_pose B"
  shows "dom (thumb A) = dom (thumb B)" "dom (index A) = dom (index B)"
    "dom (pinky A) = dom (pinky B)"
  using assms by (simp_all add: full_pose_def)



text \<open>
  A library entry carries a name and a description besides its finger groups;
  \<^verbatim>\<open>interpolatePoses\<close> does not copy them, so at the endpoints the result is the
  pose part of the entry.
\<close>

lemma interpolatePoses_endpoints_entries:
  assumes "full_pose A" "full_pose B"
  shows "interpolatePoses A B 0 c = pose.truncate A \<and>
         interpolatePoses A B 1 c = pose.truncate B"
  using full_pose_doms [OF assms]
  by (simp add: interpolatePoses_def interpolateJoints_0 interpolateJoints_1
      pose.truncate_def)



section \<open>Pose lookup\<close>

text \<open>
  Claim C7. \<^verbatim>\<open>getPose\<close> falls back to the neutral pose only when the property read
  yields \<^verbatim>\<open>undefined\<close>. The name \<^verbatim>\<open>constructor\<close> is not a key of the library, yet
  the read finds the member inherited from \<^verbatim>\<open>Object.prototype\<close>, which is truthy:
  \<^verbatim>\<open>getPose\<close> returns that member, which is neither a pose nor the neutral fallback.
\<close>

theorem getPose_inherited_member:
  "''constructor'' \<notin> set POSE_NAMES \<and>
   getPose (Some ''constructor'') = Inherited ''constructor'' \<and>
   getPose (Some ''constructor'') \<noteq> Own neutral_pose"
  by (simp add: getPose_def js_get_def property_key_def HAND_POSES_def POSE_NAMES_def
      object_prototype_keys_def)

text \<open>
  Away from the members of \<^verbatim>\<open>Object.prototype\<close> the lookup is as the contract
  says: a library key gives its entry, every other name (and \<^verbatim>\<open>undefined\<close>) gives
  the neutral pose.
\<close>

lemma getPose_own_or_neutral:
  assumes "property_key k \<notin> set object_prototype_keys"
  shows "getPose k = (case map_of HAND_POSES (property_key k) of
                        Some p \<Rightarrow> Own p | None \<Rightarrow> Own neutral_pose)"
  using assms
  by (simp add: getPose_def js_get_def HAND_POSES_def split: option.splits)

lemma getPose_undefined: "getPose None = Own neutral_pose"
  by (simp add: getPose_def js_get_def property_key_def HAND_POSES_def
      object_prototype_keys_def)

section \<open>Properties of the sample logger test\<close>




section \<open>One frame of the animation loops\<close>

lemma running_at_clock:
  assumes "running_at s l p i \<tau> n" "0 < l"
  shows "\<not> falsy (lastTimestamp s)" "to_number (lastTimestamp s) = l"
  using assms by (simp_all add: running_at_def falsy_def to_number_def)

lemma trial_phase_machine:
  "phase_machine (animate_trial settings) (getPhaseDuration settings)
     (successor PHASE_ORDER) (\<lambda>p. p = ReturnCue)"
  unfolding phase_machine_def
proof (intro allI impI, elim conjE)
  fix s :: trial_state and l :: real and p i \<tau> n and d :: real
  assume a: "running_at s l p i \<tau> n" "0 < l" "0 \<le> d"
  note f = running_at_clock [OF a(1,2)]
  show "if \<tau> + d < getPhaseDuration settings p
        then running_at (animate_trial settings s (l + d)) (l + d) p i (\<tau> + d) n
        else if p = ReturnCue \<and> n \<le> i + 1
             then \<not> isRunning (animate_trial settings s (l + d)) \<and>
                  lastTimestamp (animate_trial settings s (l + d)) = Some (l + d)
             else running_at (animate_trial settings s (l + d)) (l + d)
                    (successor PHASE_ORDER p) (if p = ReturnCue then i + 1 else i) 0 n"
    using a(1) f
    by (cases p)
      (auto simp: animate_trial_def Let_def running_at_def successor_def PHASE_ORDER_def
        completeSession_def)
qed

lemma continuous_phase_machine:
  "phase_machine (animate_continuous settings) (continuous_duration settings)
     (successor CONTINUOUS_ORDER) (\<lambda>p. p = CRest)"
  unfolding phase_machine_def
proof (intro allI impI, elim conjE)
  fix s :: continuous_state and l :: real and p i \<tau> n and d :: real
  assume a: "running_at s l p i \<tau> n" "0 < l" "0 \<le> d"
  note f = running_at_clock [OF a(1,2)]
  show "if \<tau> + d < continuous_duration settings p
        then running_at (animate_continuous settings s (l + d)) (l + d) p i (\<tau> + d) n
        else if p = CRest \<and> n \<le> i + 1
             then \<not> isRunning (animate_continuous settings s (l + d)) \<and>
                  lastTimestamp (animate_continuous settings s (l + d)) = Some (l + d)
             else running_at (animate_continuous settings s (l + d)) (l + d)
                    (successor CONTINUOUS_ORDER p) (if p = CRest then i + 1 else i) 0 n"
    using a(1) f
    by (cases p)
      (auto simp: animate_continuous_def Let_def running_at_def successor_def
        CONTINUOUS_ORDER_def completeSession_def c_logDataPoint_def continuous_duration_def)
qed

lemma periodic_phase_machine:
  "phase_machine (animate_periodic settings) (periodic_duration settings)
     (successor PERIODIC_ORDER) (\<lambda>p. p = Active)"
  unfolding phase_machine_def
proof (intro allI impI, elim conjE)
  fix s :: periodic_state and l :: real and p i \<tau> n and d :: real
  assume a: "running_at s l p i \<tau> n" "0 < l" "0 \<le> d"
  note f = running_at_clock [OF a(1,2)]
  show "if \<tau> + d < periodic_duration settings p
        then running_at (animate_periodic settings s (l + d)) (l + d) p i (\<tau> + d) n
        else if p = Active \<and> n \<le> i + 1
             then \<not> isRunning (animate_periodic settings s (l + d)) \<and>
                  lastTimestamp (animate_periodic settings s (l + d)) = Some (l + d)
             else running_at (animate_periodic settings s (l + d)) (l + d)
                    (successor PERIODIC_ORDER p) (if p = Active then i + 1 else i) 0 n"
    using a(1) f
    by (cases p)
      (auto simp: animate_periodic_def Let_def running_at_def successor_def
        PERIODIC_ORDER_def completeSession_def p_logDataPoint_def periodic_duration_def
        beat_def)
qed

section \<open>Feeding frames to a phase machine\<close>

lemma pm_stay:
  assumes "phase_machine anim dur nxt bumps" "running_at s l p i \<tau> n" "0 < l" "0 \<le> d"
    "\<tau> + d < dur p"
  shows "running_at (anim s (l + d)) (l + d) p i (\<tau> + d) n"
  using assms unfolding phase_machine_def by meson

lemma pm_complete:
  assumes "phase_machine anim dur nxt bumps" "running_at s l p i \<tau> n" "0 < l" "0 \<le> d"
    "dur p \<le> \<tau> + d" "bumps p" "n \<le> i + 1"
  shows "\<not> isRunning (anim s (l + d))"
proof -
  from assms(1) have "running_at s l p i \<tau> n \<and> 0 < l \<and> 0 \<le> d \<longrightarrow>
        (if \<tau> + d < dur p then running_at (anim s (l + d)) (l + d) p i (\<tau> + d) n
         else if bumps p \<and> n \<le> i + 1 then
           \<not> isRunning (anim s (l + d)) \<and> lastTimestamp (anim s (l + d)) = Some (l + d)
         else running_at (anim s (l + d)) (l + d) (nxt p) (if bumps p then i + 1 else i) 0 n)"
    unfolding phase_machine_def by blast
  with assms(2-) show ?thesis by simp
qed

lemma pm_advance:
  assumes "phase_machine anim dur nxt bumps" "running_at s l p i \<tau> n" "0 < l" "0 \<le> d"
    "dur p \<le> \<tau> + d" "\<not> (bumps p \<and> n \<le> i + 1)"
  shows "running_at (anim s (l + d)) (l + d) (nxt p) (if bumps p then i + 1 else i) 0 n"
proof -
  from assms(1) have "running_at s l p i \<tau> n \<and> 0 < l \<and> 0 \<le> d \<longrightarrow>
        (if \<tau> + d < dur p then running_at (anim s (l + d)) (l + d) p i (\<tau> + d) n
         else if bumps p \<and> n \<le> i + 1 then
           \<not> isRunning (anim s (l + d)) \<and> lastTimestamp (anim s (l + d)) = Some (l + d)
         else running_at (anim s (l + d)) (l + d) (nxt p) (if bumps p then i + 1 else i) 0 n)"
    unfolding phase_machine_def by blast
  with assms(2-) show ?thesis by simp
qed

lemma deliver_running:
  assumes "running_at s l p i \<tau> n"
  shows "deliver anim s (to_number (lastTimestamp s) + d) = anim s (l + d)"
  using assms by (simp add: deliver_def running_at_def to_number_def)

lemma stopped_feed:
  assumes "\<not> isRunning s"
  shows "feed anim s ds = s \<and> phase_ends anim s ds = 0 \<and> completions anim s ds = 0"
  using assms by (induction ds) (simp_all add: deliver_def ends_phase_def)

lemma feed_append: "feed anim s (xs @ ys) = feed anim (feed anim s xs) ys"
  by (induction xs arbitrary: s) simp_all

lemma phase_ends_append:
  "phase_ends anim s (xs @ ys) = phase_ends anim s xs + phase_ends anim (feed anim s xs) ys"
  by (induction xs arbitrary: s) (simp_all add: Let_def)

lemma completions_append:
  "completions anim s (xs @ ys) = completions anim s xs + completions anim (feed anim s xs) ys"
  by (induction xs arbitrary: s) (simp_all add: Let_def)

lemma sum_list_nonneg_real:
  fixes ds :: "real list"
  assumes "\<forall>d\<in>set ds. 0 \<le> d"
  shows "0 \<le> sum_list ds"
  using assms by (induction ds) simp_all

lemma stay_run:
  assumes pm: "phase_machine anim dur nxt bumps"
    and "running_at s l p i \<tau> n" "0 < l" "\<forall>d\<in>set ds. 0 \<le> d" "\<tau> + sum_list ds < dur p"
  shows "running_at (feed anim s ds) (l + sum_list ds) p i (\<tau> + sum_list ds) n \<and>
         phase_ends anim s ds = 0 \<and> completions anim s ds = 0"
  using assms(2-)
proof (induction ds arbitrary: s l \<tau>)
  case Nil
  then show ?case by simp
next
  case (Cons d ds)
  from Cons.prems have d: "0 \<le> d" and ds: "\<forall>x\<in>set ds. 0 \<le> x" by simp_all
  from sum_list_nonneg_real [OF ds] Cons.prems(4) have lt: "\<tau> + d < dur p" by simp
  let ?s' = "anim s (l + d)"
  have s': "running_at ?s' (l + d) p i (\<tau> + d) n"
    by (rule pm_stay [OF pm Cons.prems(1,2) d lt])
  have dl: "deliver anim s (to_number (lastTimestamp s) + d) = ?s'"
    by (rule deliver_running [OF Cons.prems(1)])
  have no: "\<not> ends_phase s ?s'"
    using Cons.prems(1) s' by (simp add: ends_phase_def running_at_def)
  have run: "isRunning ?s'"
    using s' by (simp add: running_at_def)
  have "running_at (feed anim ?s' ds) (l + d + sum_list ds) p i (\<tau> + d + sum_list ds) n \<and>
        phase_ends anim ?s' ds = 0 \<and> completions anim ?s' ds = 0"
    using Cons.prems(2,4) d by (intro Cons.IH [OF s' _ ds]) simp_all
  then show ?case
    using dl no run by (simp add: Let_def add.assoc)
qed

lemma sum_list_zero_all:
  fixes ds :: "real list"
  assumes "\<forall>d\<in>set ds. 0 \<le> d" "sum_list ds \<le> 0"
  shows "sum_list ds = 0"
  using sum_list_nonneg_real [OF assms(1)] assms(2) by simp

text \<open>One phase: frames whose deltas sum to what is left of the phase end it once.\<close>

lemma segment:
  assumes pm: "phase_machine anim dur nxt bumps"
    and pos: "\<forall>q. 0 < dur q" and move: "\<forall>q. nxt q \<noteq> q"
    and "running_at s l p i \<tau> n" "0 < l" "\<forall>d\<in>set ds. 0 \<le> d"
      "\<tau> + sum_list ds = dur p" "\<tau> < dur p"
  shows "phase_ends anim s ds = 1 \<and>
         (if bumps p \<and> n \<le> i + 1
          then \<not> isRunning (feed anim s ds) \<and> completions anim s ds = 1
          else running_at (feed anim s ds) (l + sum_list ds) (nxt p)
                 (if bumps p then i + 1 else i) 0 n \<and> completions anim s ds = 0)"
  using assms(4-)
proof (induction ds arbitrary: s l \<tau>)
  case Nil
  then show ?case by simp
next
  case (Cons d ds)
  from Cons.prems have d: "0 \<le> d" and ds: "\<forall>x\<in>set ds. 0 \<le> x" by simp_all
  let ?s' = "anim s (l + d)"
  have dl: "deliver anim s (to_number (lastTimestamp s) + d) = ?s'"
    by (rule deliver_running [OF Cons.prems(1)])
  have run: "isRunning s"
    using Cons.prems(1) by (simp add: running_at_def)
  show ?case
  proof (cases "\<tau> + d < dur p")
    case True
    have s': "running_at ?s' (l + d) p i (\<tau> + d) n"
      by (rule pm_stay [OF pm Cons.prems(1,2) d True])
    have no: "\<not> ends_phase s ?s'" "isRunning ?s'"
      using Cons.prems(1) s' by (simp_all add: ends_phase_def running_at_def)
    have "phase_ends anim ?s' ds = 1 \<and>
         (if bumps p \<and> n \<le> i + 1
          then \<not> isRunning (feed anim ?s' ds) \<and> completions anim ?s' ds = 1
          else running_at (feed anim ?s' ds) (l + d + sum_list ds) (nxt p)
                 (if bumps p then i + 1 else i) 0 n \<and> completions anim ?s' ds = 0)"
      using Cons.prems(2,4) d True by (intro Cons.IH [OF s' _ ds]) simp_all
    then show ?thesis
      using dl no by (simp add: Let_def add.assoc cong: if_cong)
  next
    case False
    then have ge: "dur p \<le> \<tau> + d" by simp
    from Cons.prems(4) have "sum_list ds = dur p - (\<tau> + d)" by simp
    with ge have "sum_list ds \<le> 0" by simp
    from sum_list_zero_all [OF ds this] have z: "sum_list ds = 0" .
    show ?thesis
    proof (cases "bumps p \<and> n \<le> i + 1")
      case True
      then have stop: "\<not> isRunning ?s'"
        using pm_complete [OF pm Cons.prems(1,2) d ge] by simp
      from stopped_feed [OF stop, of anim ds] stop run show ?thesis
        using True dl by (simp add: Let_def ends_phase_def)
    next
      case False
      have s': "running_at ?s' (l + d) (nxt p) (if bumps p then i + 1 else i) 0 n"
        by (rule pm_advance [OF pm Cons.prems(1,2) d ge False])
      have e: "ends_phase s ?s'" "isRunning ?s'"
        using Cons.prems(1) s' move by (simp_all add: ends_phase_def running_at_def)
      have "0 + sum_list ds < dur (nxt p)"
        using z pos by simp
      from stay_run [OF pm s' _ ds this] Cons.prems(2) d
      have "running_at (feed anim ?s' ds) (l + d + sum_list ds) (nxt p)
              (if bumps p then i + 1 else i) (0 + sum_list ds) n \<and>
            phase_ends anim ?s' ds = 0 \<and> completions anim ?s' ds = 0"
        by simp
      then show ?thesis
        using False dl e z by (simp add: Let_def)
    qed
  qed
qed

lemma session_run:
  assumes pm: "phase_machine anim dur nxt bumps"
    and pos: "\<forall>q. 0 < dur q" and move: "\<forall>q. nxt q \<noteq> q"
    and "running_at s l p i 0 n" "0 < l" "follows nxt bumps n p i qs"
      "list_all2 (\<lambda>seg q. (\<forall>d\<in>set seg. 0 \<le> d) \<and> sum_list seg = dur q) segs qs"
  shows "\<not> isRunning (feed anim s (concat segs)) \<and>
         completions anim s (concat segs) = 1 \<and>
         phase_ends anim s (concat segs) = length qs"
  using assms(4-)
proof (induction segs arbitrary: s l p i qs)
  case Nil
  then show ?case by simp
next
  case (Cons seg segs)
  from Cons.prems(4) obtain q qs' where qs: "qs = q # qs'"
    and seg: "\<forall>d\<in>set seg. 0 \<le> d" "sum_list seg = dur q"
    and rest: "list_all2 (\<lambda>seg q. (\<forall>d\<in>set seg. 0 \<le> d) \<and> sum_list seg = dur q) segs qs'"
    by (auto simp: list_all2_Cons1)
  from Cons.prems(3) qs have qp: "q = p" by simp
  have sum: "0 + sum_list seg = dur p" "(0::real) < dur p"
    using seg(2) qp pos by simp_all
  note one = segment [OF pm pos move Cons.prems(1,2) seg(1) sum]
  show ?case
  proof (cases "bumps p \<and> n \<le> i + 1")
    case True
    with Cons.prems(3) qs have "qs' = []" by simp
    with rest have "segs = []" by simp
    with one True qs \<open>qs' = []\<close> show ?thesis by simp
  next
    case False
    let ?s' = "feed anim s seg"
    let ?i' = "if bumps p then i + 1 else i"
    from one False have s': "running_at ?s' (l + sum_list seg) (nxt p) ?i' 0 n"
      and c: "completions anim s seg = 0" and e: "phase_ends anim s seg = 1"
      by simp_all
    from Cons.prems(3) qs qp False have f: "follows nxt bumps n (nxt p) ?i' qs'"
      by simp
    have l': "0 < l + sum_list seg"
      using Cons.prems(2) sum by simp
    from Cons.IH [OF s' l' f rest] c e qs show ?thesis
      by (simp add: feed_append completions_append phase_ends_append)
  qed
qed

section \<open>The phase orderings\<close>

lemma successor_trial_moves: "successor PHASE_ORDER q \<noteq> q"
  by (cases q) (simp_all add: successor_def PHASE_ORDER_def)

lemma successor_continuous_moves: "successor CONTINUOUS_ORDER q \<noteq> q"
  by (cases q) (simp_all add: successor_def CONTINUOUS_ORDER_def)

lemma successor_trial [simp]:
  "successor PHASE_ORDER Rest = Preparation"
  "successor PHASE_ORDER Preparation = Execution"
  "successor PHASE_ORDER Execution = ReturnCue"
  "successor PHASE_ORDER ReturnCue = Rest"
  by (simp_all add: successor_def PHASE_ORDER_def)

lemma successor_continuous [simp]:
  "successor CONTINUOUS_ORDER CRest = CTransition"
  "successor CONTINUOUS_ORDER CTransition = CRest"
  by (simp_all add: successor_def CONTINUOUS_ORDER_def)

lemma follows_trial:
  assumes "i < n"
  shows "follows (successor PHASE_ORDER) (\<lambda>p. p = ReturnCue) n Rest i
           (concat (replicate (n - i) PHASE_ORDER))"
  using assms
proof (induction "n - i" arbitrary: i)
  case 0
  then show ?case by simp
next
  case (Suc k)
  then have n: "n - i = Suc k" by simp
  have unfold: "concat (replicate (n - i) PHASE_ORDER) =
      Rest # Preparation # Execution # ReturnCue # concat (replicate k PHASE_ORDER)"
    using n by (simp add: PHASE_ORDER_def)
  show ?case
  proof (cases "n \<le> i + 1")
    case True
    with n have "k = 0" by simp
    with True show ?thesis
      unfolding unfold by simp
  next
    case False
    with Suc.hyps(2) have k: "k = n - (i + 1)" "i + 1 < n" by simp_all
    from Suc.hyps(1) [OF this] k(1) False show ?thesis
      unfolding unfold by simp
  qed
qed

lemma follows_continuous:
  assumes "i < n"
  shows "follows (successor CONTINUOUS_ORDER) (\<lambda>p. p = CRest) n CRest i
           (CRest # concat (replicate (n - 1 - i) [CTransition, CRest]))"
  using assms
proof (induction "n - i" arbitrary: i)
  case 0
  then show ?case by simp
next
  case (Suc k)
  show ?case
  proof (cases "n \<le> i + 1")
    case True
    then show ?thesis by simp
  next
    case False
    with Suc.hyps(2) have "k = n - (i + 1)" "i + 1 < n" by simp_all
    from Suc.hyps(1) [OF this] have
      "follows (successor CONTINUOUS_ORDER) (\<lambda>p. p = CRest) n CRest (i + 1)
         (CRest # concat (replicate (n - 1 - (i + 1)) [CTransition, CRest]))" .
    moreover from False have "n - 1 - i = Suc (n - 1 - (i + 1))" by simp
    ultimately show ?thesis
      using False by simp
  qed
qed

section \<open>Beats of the periodic component\<close>







section \<open>Evaluating concrete sessions\<close>

lemmas run_defs = initial_continuous_def continuous_duration_def startSession_continuous_def pauseSession_continuous_def
    startStopEffect_def deliver_def animate_continuous_def falsy_def to_number_def logDue_def js_rem_def js_trunc_def
    c_logDataPoint_def completeSession_def Let_def default_continuous_settings_def
    initial_periodic_def startSession_periodic_def pauseSession_periodic_def startStopEffect_periodic_def
    animate_periodic_def periodic_duration_def beat_def beatInterval_def p_logDataPoint_def default_periodic_settings_def
    initial_trial_def startSession_trial_def pauseSession_trial_def animate_trial_def default_trial_settings_def
    PHASE_ORDER_def

section \<open>Phase-transition counting\<close>

text \<open>
  A session stands at the start of its first phase after the Start button and one
  frame: that first frame only sets the clock.
\<close>

lemma first_frame_trial:
  assumes "0 < t" "0 < restDuration settings"
  shows "running_at (run_trial settings (initial_trial poseSequence) [StartButton, Frame t])
           t Rest 0 0 (length poseSequence)"
  using assms
  by (simp add: initial_trial_def startSession_trial_def startStopEffect_def deliver_def
      animate_trial_def falsy_def to_number_def running_at_def Let_def)

lemma first_frame_continuous:
  assumes "0 < t" "0 < c_restDuration settings"
  shows "running_at
           (run_continuous settings (initial_continuous poseSequence) [StartButton, Frame t])
           t CRest 0 0 (length poseSequence)"
  using assms
  by (simp add: initial_continuous_def startSession_continuous_def startStopEffect_def
      deliver_def animate_continuous_def falsy_def to_number_def running_at_def Let_def
      continuous_duration_def c_logDataPoint_def)

lemma first_frame_periodic:
  assumes "0 < t" "0 < prepDuration settings"
  shows "running_at
           (run_periodic settings (initial_periodic trialSequence) [StartButton, Frame t])
           t Prep 0 0 (length trialSequence)"
  using assms
  by (simp add: initial_periodic_def startSession_periodic_def startStopEffect_periodic_def
      deliver_def animate_periodic_def falsy_def to_number_def running_at_def Let_def
      periodic_duration_def p_logDataPoint_def)

lemma trial_durations_positive:
  assumes "0 < preparationDuration settings" "0 < executionDuration settings"
    "0 < returnCueDuration settings" "0 < restDuration settings"
  shows "\<forall>q. 0 < getPhaseDuration settings q"
proof
  fix q show "0 < getPhaseDuration settings q"
    using assms by (cases q) simp_all
qed

text \<open>
  Claim C2, amended. All phase durations are positive and frame deltas are
  non-negative. (1) From the start of any phase, frames whose deltas sum to exactly
  that phase's duration end the phase exactly once: the machine then stands at the
  start of the next phase with \<open>timeInPhase = 0\<close>, or, after the last phase of the
  last entry, the session has completed. (2) From the start of a session, frames that
  split into consecutive groups, one for each phase of the session in order, each
  group summing exactly to its phase's duration, complete the session exactly once;
  frames fed after that are not processed. Both hold for the trial-based component
  and for the continuous-transition component.
\<close>

theorem phase_transition_counting:
  fixes s s0 :: trial_state and c c0 :: continuous_state
  assumes trial_durations:
      "0 < preparationDuration settings" "0 < executionDuration settings"
      "0 < returnCueDuration settings" "0 < restDuration settings"
    and continuous_durations:
      "0 < c_restDuration csettings" "0 < c_transitionDuration csettings"
    and trial_phase:
      "running_at s l p i 0 n" "0 < l"
      "\<forall>d\<in>set ds. 0 \<le> d" "sum_list ds = getPhaseDuration settings p"
    and trial_session:
      "running_at s0 l0 Rest 0 0 n0" "0 < l0" "0 < n0"
      "exact_groups (getPhaseDuration settings) segs (concat (replicate n0 PHASE_ORDER))"
    and continuous_phase:
      "running_at c cl cp ci 0 cn" "0 < cl"
      "\<forall>d\<in>set cds. 0 \<le> d" "sum_list cds = continuous_duration csettings cp"
    and continuous_session:
      "running_at c0 cl0 CRest 0 0 cn0" "0 < cl0" "0 < cn0"
      "exact_groups (continuous_duration csettings) csegs
         (CRest # concat (replicate (cn0 - 1) [CTransition, CRest]))"
  shows "(phase_ends (animate_trial settings) s ds = 1 \<and>
          (if p = ReturnCue \<and> n \<le> i + 1
           then \<not> isRunning (feed (animate_trial settings) s ds)
           else running_at (feed (animate_trial settings) s ds) (l + sum_list ds)
                  (successor PHASE_ORDER p) (if p = ReturnCue then i + 1 else i) 0 n)) \<and>
         (completions (animate_trial settings) s0 (concat segs @ later) = 1 \<and>
          \<not> isRunning (feed (animate_trial settings) s0 (concat segs)) \<and>
          feed (animate_trial settings) s0 (concat segs @ later) =
            feed (animate_trial settings) s0 (concat segs)) \<and>
         (phase_ends (animate_continuous csettings) c cds = 1 \<and>
          (if cp = CRest \<and> cn \<le> ci + 1
           then \<not> isRunning (feed (animate_continuous csettings) c cds)
           else running_at (feed (animate_continuous csettings) c cds) (cl + sum_list cds)
                  (successor CONTINUOUS_ORDER cp) (if cp = CRest then ci + 1 else ci) 0 cn)) \<and>
         (completions (animate_continuous csettings) c0 (concat csegs @ clater) = 1 \<and>
          \<not> isRunning (feed (animate_continuous csettings) c0 (concat csegs)) \<and>
          feed (animate_continuous csettings) c0 (concat csegs @ clater) =
            feed (animate_continuous csettings) c0 (concat csegs))"
proof -
  note tpos = trial_durations_positive [OF trial_durations]
  have tmove: "\<forall>q. successor PHASE_ORDER q \<noteq> q"
    by (simp add: successor_trial_moves)
  have cpos: "\<forall>q. 0 < continuous_duration csettings q"
    using continuous_durations by (simp add: continuous_duration_def)
  have cmove: "\<forall>q. successor CONTINUOUS_ORDER q \<noteq> q"
    by (simp add: successor_continuous_moves)
  have t1: "0 + sum_list ds = getPhaseDuration settings p" "0 < getPhaseDuration settings p"
    using trial_phase(4) tpos by simp_all
  have c1: "0 + sum_list cds = continuous_duration csettings cp"
    "0 < continuous_duration csettings cp"
    using continuous_phase(4) cpos by simp_all
  have A: "phase_ends (animate_trial settings) s ds = 1 \<and>
          (if p = ReturnCue \<and> n \<le> i + 1
           then \<not> isRunning (feed (animate_trial settings) s ds)
           else running_at (feed (animate_trial settings) s ds) (l + sum_list ds)
                  (successor PHASE_ORDER p) (if p = ReturnCue then i + 1 else i) 0 n)"
    using segment [OF trial_phase_machine tpos tmove trial_phase(1,2,3) t1]
    by (simp split: if_splits)
  have C: "phase_ends (animate_continuous csettings) c cds = 1 \<and>
          (if cp = CRest \<and> cn \<le> ci + 1
           then \<not> isRunning (feed (animate_continuous csettings) c cds)
           else running_at (feed (animate_continuous csettings) c cds) (cl + sum_list cds)
                  (successor CONTINUOUS_ORDER cp) (if cp = CRest then ci + 1 else ci) 0 cn)"
    using segment [OF continuous_phase_machine cpos cmove continuous_phase(1,2,3) c1]
    by (simp split: if_splits)
  have tf: "follows (successor PHASE_ORDER) (\<lambda>p. p = ReturnCue) n0 Rest 0
              (concat (replicate n0 PHASE_ORDER))"
    using follows_trial [of 0 n0] trial_session(3) by simp
  have tr: "\<not> isRunning (feed (animate_trial settings) s0 (concat segs)) \<and>
            completions (animate_trial settings) s0 (concat segs) = 1"
    using session_run [OF trial_phase_machine tpos tmove trial_session(1,2) tf]
      trial_session(4) by (simp add: exact_groups_def)
  have B: "completions (animate_trial settings) s0 (concat segs @ later) = 1 \<and>
          \<not> isRunning (feed (animate_trial settings) s0 (concat segs)) \<and>
          feed (animate_trial settings) s0 (concat segs @ later) =
            feed (animate_trial settings) s0 (concat segs)"
    using tr stopped_feed [of "feed (animate_trial settings) s0 (concat segs)"
        "animate_trial settings" later]
    by (simp add: feed_append completions_append)
  have cf: "follows (successor CONTINUOUS_ORDER) (\<lambda>p. p = CRest) cn0 CRest 0
              (CRest # concat (replicate (cn0 - 1) [CTransition, CRest]))"
    using follows_continuous [of 0 cn0] continuous_session(3) by simp
  have cr: "\<not> isRunning (feed (animate_continuous csettings) c0 (concat csegs)) \<and>
            completions (animate_continuous csettings) c0 (concat csegs) = 1"
    using session_run [OF continuous_phase_machine cpos cmove continuous_session(1,2) cf]
      continuous_session(4) by (simp add: exact_groups_def)
  have D: "completions (animate_continuous csettings) c0 (concat csegs @ clater) = 1 \<and>
          \<not> isRunning (feed (animate_continuous csettings) c0 (concat csegs)) \<and>
          feed (animate_continuous csettings) c0 (concat csegs @ clater) =
            feed (animate_continuous csettings) c0 (concat csegs)"
    using cr stopped_feed [of "feed (animate_continuous csettings) c0 (concat csegs)"
        "animate_continuous csettings" clater]
    by (simp add: feed_append completions_append)
  from A B C D show ?thesis by blast
qed

lemma started_trial_running: "running_at started_trial 1000 Rest 0 0 1"
  by (simp add: run_defs started_trial_def running_at_def)

lemma started_continuous_running: "running_at started_continuous 1000 CRest 0 0 2"
  by (simp add: run_defs started_continuous_def running_at_def)

theorem phase_transition_counting_witness:
  "running_at started_trial 1000 Rest 0 0 1 \<and>
   sum_list [500, 0, 1500] = getPhaseDuration default_trial_settings Rest \<and>
   exact_groups (getPhaseDuration default_trial_settings)
     [[2000], [400, 600], [4000], [100, 400]] (concat (replicate 1 PHASE_ORDER)) \<and>
   running_at started_continuous 1000 CRest 0 0 2 \<and>
   sum_list [2000] = continuous_duration default_continuous_settings CRest \<and>
   exact_groups (continuous_duration default_continuous_settings)
     [[2000], [1200], [1000, 1000]] (CRest # concat (replicate (2 - 1) [CTransition, CRest])) \<and>
   phase_ends (animate_trial default_trial_settings) started_trial [500, 0, 1500] = 1 \<and>
   running_at (feed (animate_trial default_trial_settings) started_trial [500, 0, 1500])
     3000 Preparation 0 0 1 \<and>
   completions (animate_trial default_trial_settings) started_trial
     (concat [[2000], [400, 600], [4000], [100, 400]] @ [16, 16]) = 1 \<and>
   \<not> isRunning (feed (animate_trial default_trial_settings) started_trial
     (concat [[2000], [400, 600], [4000], [100, 400]])) \<and>
   phase_ends (animate_continuous default_continuous_settings) started_continuous [2000] = 1 \<and>
   running_at (feed (animate_continuous default_continuous_settings) started_continuous [2000])
     3000 CTransition 1 0 2 \<and>
   completions (animate_continuous default_continuous_settings) started_continuous
     (concat [[2000], [1200], [1000, 1000]] @ [5]) = 1 \<and>
   \<not> isRunning (feed (animate_continuous default_continuous_settings) started_continuous
     (concat [[2000], [1200], [1000, 1000]]))"
proof -
  have td: "0 < preparationDuration default_trial_settings"
    "0 < executionDuration default_trial_settings"
    "0 < returnCueDuration default_trial_settings" "0 < restDuration default_trial_settings"
    by (simp_all add: default_trial_settings_def)
  have cd: "0 < c_restDuration default_continuous_settings"
    "0 < c_transitionDuration default_continuous_settings"
    by (simp_all add: default_continuous_settings_def)
  have t1: "\<forall>d\<in>set [500, 0, 1500 :: real]. 0 \<le> d"
    "sum_list [500, 0, 1500] = getPhaseDuration default_trial_settings Rest"
    by (simp_all add: default_trial_settings_def)
  have t2: "exact_groups (getPhaseDuration default_trial_settings)
     [[2000], [400, 600], [4000], [100, 400]] (concat (replicate 1 PHASE_ORDER))"
    by (simp add: exact_groups_def PHASE_ORDER_def default_trial_settings_def)
  have c1: "\<forall>d\<in>set [2000 :: real]. 0 \<le> d"
    "sum_list [2000] = continuous_duration default_continuous_settings CRest"
    by (simp_all add: default_continuous_settings_def continuous_duration_def)
  have c2: "exact_groups (continuous_duration default_continuous_settings)
     [[2000], [1200], [1000, 1000]] (CRest # concat (replicate (2 - 1) [CTransition, CRest]))"
    by (simp add: exact_groups_def continuous_duration_def default_continuous_settings_def)
  have pos: "(0::real) < 1000" "(0::nat) < 1" "(0::nat) < 2" by simp_all
  note inst = phase_transition_counting [OF td cd started_trial_running pos(1) t1
      started_trial_running pos(1) pos(2) t2 started_continuous_running pos(1) c1
      started_continuous_running pos(1) pos(3) c2, of "[16, 16]" "[5]"]
  from inst started_trial_running started_continuous_running t1(2) t2 c1(2) c2
  show ?thesis by simp
qed

text \<open>
  Claim C2 as stated fails in its second half. With the default durations and one
  target the session lasts 2000 + 1000 + 4000 + 500 ms. Five frames 1500 ms apart have
  deltas that sum to exactly that, yet each phase transition discards the overshoot:
  after the five frames the session is still running, in the execution phase, and has
  never completed.
\<close>

theorem session_duration_without_completion:
  "running_at started_trial 1000 Rest 0 0 1 \<and>
   sum_list [1500, 1500, 1500, 1500, 1500] =
     restDuration default_trial_settings + preparationDuration default_trial_settings +
     executionDuration default_trial_settings + returnCueDuration default_trial_settings \<and>
   isRunning (feed (animate_trial default_trial_settings) started_trial
     [1500, 1500, 1500, 1500, 1500]) \<and>
   phase (feed (animate_trial default_trial_settings) started_trial
     [1500, 1500, 1500, 1500, 1500]) = Execution \<and>
   completions (animate_trial default_trial_settings) started_trial
     [1500, 1500, 1500, 1500, 1500] = 0"
  by (simp add: run_defs started_trial_def running_at_def)

section \<open>Beat counting in the periodic component\<close>






section \<open>One frame, at most one transition\<close>

text \<open>
  Claim C8. For every state of the trial-based and of the continuous-transition
  component and every frame, whatever its timestamp: if the frame changes the phase
  or the index, then the new phase is the successor of the old one in the phase
  ordering, the index has grown by one exactly when the ordering wrapped to the next
  entry (and is unchanged otherwise), and \<open>timeInPhase\<close> is exactly \<open>0\<close>.
\<close>

theorem at_most_one_transition_per_frame:
  fixes s :: trial_state and c :: continuous_state
  shows
    "(phase (animate_trial settings s t) \<noteq> phase s \<or>
      currentIndex (animate_trial settings s t) \<noteq> currentIndex s \<longrightarrow>
        phase (animate_trial settings s t) = successor PHASE_ORDER (phase s) \<and>
        currentIndex (animate_trial settings s t) =
          currentIndex s + (if phase s = ReturnCue then 1 else 0) \<and>
        timeInPhase (animate_trial settings s t) = 0) \<and>
     (phase (animate_continuous csettings c u) \<noteq> phase c \<or>
      currentIndex (animate_continuous csettings c u) \<noteq> currentIndex c \<longrightarrow>
        phase (animate_continuous csettings c u) = successor CONTINUOUS_ORDER (phase c) \<and>
        currentIndex (animate_continuous csettings c u) =
          currentIndex c + (if phase c = CRest then 1 else 0) \<and>
        timeInPhase (animate_continuous csettings c u) = 0)"
proof
  show "phase (animate_trial settings s t) \<noteq> phase s \<or>
      currentIndex (animate_trial settings s t) \<noteq> currentIndex s \<longrightarrow>
        phase (animate_trial settings s t) = successor PHASE_ORDER (phase s) \<and>
        currentIndex (animate_trial settings s t) =
          currentIndex s + (if phase s = ReturnCue then 1 else 0) \<and>
        timeInPhase (animate_trial settings s t) = 0"
    by (cases "phase s")
      (simp_all add: animate_trial_def Let_def completeSession_def PHASE_ORDER_def successor_def)
next
  show "phase (animate_continuous csettings c u) \<noteq> phase c \<or>
      currentIndex (animate_continuous csettings c u) \<noteq> currentIndex c \<longrightarrow>
        phase (animate_continuous csettings c u) = successor CONTINUOUS_ORDER (phase c) \<and>
        currentIndex (animate_continuous csettings c u) =
          currentIndex c + (if phase c = CRest then 1 else 0) \<and>
        timeInPhase (animate_continuous csettings c u) = 0"
    by (cases "phase c")
      (simp_all add: animate_continuous_def Let_def completeSession_def CONTINUOUS_ORDER_def
        successor_def c_logDataPoint_def)
qed

theorem at_most_one_transition_per_frame_witness:
  "phase (animate_trial default_trial_settings started_trial 1000000) \<noteq> phase started_trial \<and>
   phase (animate_trial default_trial_settings started_trial 1000000) =
     successor PHASE_ORDER (phase started_trial) \<and>
   currentIndex (animate_trial default_trial_settings started_trial 1000000) =
     currentIndex started_trial + (if phase started_trial = ReturnCue then 1 else 0) \<and>
   timeInPhase (animate_trial default_trial_settings started_trial 1000000) = 0 \<and>
   currentIndex (animate_continuous default_continuous_settings started_continuous 1000000)
     \<noteq> currentIndex started_continuous \<and>
   phase (animate_continuous default_continuous_settings started_continuous 1000000) =
     successor CONTINUOUS_ORDER (phase started_continuous) \<and>
   currentIndex (animate_continuous default_continuous_settings started_continuous 1000000) =
     currentIndex started_continuous + (if phase started_continuous = CRest then 1 else 0) \<and>
   timeInPhase (animate_continuous default_continuous_settings started_continuous 1000000) = 0"
proof -
  have a: "phase (animate_trial default_trial_settings started_trial 1000000)
      \<noteq> phase started_trial"
    by (simp add: run_defs started_trial_def)
  have b: "currentIndex (animate_continuous default_continuous_settings started_continuous 1000000)
     \<noteq> currentIndex started_continuous"
    by (simp add: run_defs started_continuous_def)
  from a b at_most_one_transition_per_frame [of default_trial_settings started_trial 1000000
      default_continuous_settings started_continuous 1000000]
  show ?thesis by blast
qed

section \<open>The logging test and the floor of the quotient\<close>





section \<open>Pause and resume\<close>

text \<open>
  While the session is paused no frame is delivered, so the paused interval adds
  nothing to any phase. On resume, however, the effect restarts the current phase:
  whatever time had accumulated in it is discarded, while the phase and the index are
  kept, and in the periodic component the beat count and the direction are kept too.
\<close>

lemma paused_frames_ignored:
  assumes "isPaused s"
  shows "deliver anim s t = s"
  using assms by (simp add: deliver_def)

lemma resume_restarts_phase_continuous:
  assumes "isRunning s" "isPaused s"
  shows "timeInPhase (pauseSession_continuous s) = 0 \<and>
         lastTimestamp (pauseSession_continuous s) = None \<and>
         phase (pauseSession_continuous s) = phase s \<and>
         currentIndex (pauseSession_continuous s) = currentIndex s"
  using assms by (simp add: pauseSession_continuous_def startStopEffect_def)

lemma resume_restarts_phase_trial:
  assumes "isRunning s" "isPaused s"
  shows "timeInPhase (pauseSession_trial s) = 0 \<and>
         lastTimestamp (pauseSession_trial s) = None \<and>
         phase (pauseSession_trial s) = phase s \<and>
         currentIndex (pauseSession_trial s) = currentIndex s"
  using assms by (simp add: pauseSession_trial_def startStopEffect_def)

lemma resume_restarts_phase_periodic:
  assumes "isRunning s" "isPaused s"
  shows "timeInPhase (pauseSession_periodic s) = 0 \<and>
         lastTimestamp (pauseSession_periodic s) = None \<and>
         lastBeatTime (pauseSession_periodic s) = 0 \<and>
         phase (pauseSession_periodic s) = phase s \<and>
         currentIndex (pauseSession_periodic s) = currentIndex s \<and>
         beatCount (pauseSession_periodic s) = beatCount s \<and>
         isMovingToTarget (pauseSession_periodic s) = isMovingToTarget s"
  using assms by (simp add: pauseSession_periodic_def startStopEffect_periodic_def)

text \<open>
  Claim C1. The start/stop effect runs on resume as it does on start and sets
  \<^verbatim>\<open>timeInPhaseRef\<close> to \<open>0\<close> (and \<^verbatim>\<open>lastBeatTimeRef\<close> to \<open>0\<close>, so that the next
  frame restarts the beat interval). Continuous-transition component: 500 ms into the
  rest phase the session is paused and resumed; 100 ms after the first frame that
  follows, the time in phase is 100 ms, whereas the same frames with the paused
  interval left out give 600 ms. Periodic component: paused and resumed 1000 ms into
  the active phase, the session is 300 ms into the phase and has produced no beat
  300 ms later, whereas without the pause it is 1300 ms into the phase and has
  produced its first beat.
\<close>

theorem pause_resume_restarts_phase_time:
  "timeInPhase (run_continuous default_continuous_settings (initial_continuous [''neutral'', ''open''])
     [StartButton, Frame 1000, Frame 1500, PauseButton, Frame 3000, PauseButton,
      Frame 6000, Frame 6100]) = 100 \<and>
   timeInPhase (run_continuous default_continuous_settings (initial_continuous [''neutral'', ''open''])
     [StartButton, Frame 1000, Frame 1500, Frame 1500, Frame 1600]) = 600 \<and>
   timeInPhase (run_periodic default_periodic_settings (initial_periodic [''open'', ''indexHook''])
     [StartButton, Frame 1000, Frame 3000, Frame 4000, PauseButton, Frame 6000, PauseButton,
      Frame 9000, Frame 9300]) = 300 \<and>
   beatEvents (run_periodic default_periodic_settings (initial_periodic [''open'', ''indexHook''])
     [StartButton, Frame 1000, Frame 3000, Frame 4000, PauseButton, Frame 6000, PauseButton,
      Frame 9000, Frame 9300]) = [] \<and>
   timeInPhase (run_periodic default_periodic_settings (initial_periodic [''open'', ''indexHook''])
     [StartButton, Frame 1000, Frame 3000, Frame 4000, Frame 4000, Frame 4300]) = 1300 \<and>
   beatEvents (run_periodic default_periodic_settings (initial_periodic [''open'', ''indexHook''])
     [StartButton, Frame 1000, Frame 3000, Frame 4000, Frame 4000, Frame 4300]) = [True]"
  by (simp add: run_defs)

section \<open>The balanced block sequence on pools of two or more\<close>

lemma js_swap_in_range:
  assumes "i < length a" "j < length a"
  shows "js_swap a i j = a[i := a ! j, j := a ! i]"
  using assms by (simp add: js_swap_def js_index_def js_store_def Let_def)

lemma js_swap_mset:
  assumes "i < length a" "j < length a"
  shows "mset (js_swap a i j) = mset a"
  using assms by (simp add: js_swap_in_range mset_swap)

lemma random_index_bound:
  assumes "0 \<le> r" "r < 1"
  shows "nat \<lfloor>r * real (Suc n)\<rfloor> \<le> n"
proof -
  have "r * real (Suc n) < real (Suc n)"
    using assms by simp
  then have "\<lfloor>r * real (Suc n)\<rfloor> < int (Suc n)"
    by (simp add: floor_less_iff)
  then show ?thesis by simp
qed

lemma shuffle_loop_mset:
  assumes "unit_stream rs" "i < length a"
  shows "mset (fst (shuffle_loop rs i (a, k))) = mset a"
  using assms(2)
proof (induction i arbitrary: a k)
  case 0
  then show ?case by simp
next
  case (Suc i)
  let ?j = "nat \<lfloor>rs k * real (Suc i + 1)\<rfloor>"
  from assms(1) have r: "0 \<le> rs k" "rs k < 1"
    by (simp_all add: unit_stream_def)
  have "?j \<le> Suc i"
    using random_index_bound [OF r, of "Suc i"] by simp
  with Suc.prems have j: "?j < length a" by simp
  have m: "mset (js_swap a (Suc i) ?j) = mset a"
    by (rule js_swap_mset [OF Suc.prems j])
  then have "length (js_swap a (Suc i) ?j) = length a"
    by (metis size_mset)
  with Suc.prems have "i < length (js_swap a (Suc i) ?j)" by simp
  from Suc.IH [OF this] m show ?case
    by (simp add: Let_def)
qed

lemma shuffle_mset:
  assumes "unit_stream rs"
  shows "mset (fst (shuffle rs (a, k))) = mset a"
proof (cases a)
  case Nil
  then show ?thesis by (simp add: shuffle_def)
next
  case (Cons x xs)
  then have "length a - 1 < length a" by simp
  from shuffle_loop_mset [OF assms this] show ?thesis
    by (simp add: shuffle_def)
qed

text \<open>With two or more poses the repair swap stays inside the block.\<close>

lemma append_block_mset:
  assumes "unit_stream rs" "2 \<le> length pool"
  shows "\<exists>block. fst (append_block pool rs (sq, k)) = sq @ block \<and>
           mset block = mset (map Some pool)"
proof -
  let ?sh = "shuffle rs (map Some pool, k)"
  let ?block = "fst ?sh"
  have m: "mset ?block = mset (map Some pool)"
    by (rule shuffle_mset [OF assms(1)])
  then have len: "length ?block = length pool"
    by (metis length_map size_mset)
  let ?r = "rs (snd ?sh)"
  from assms(1) have r: "0 \<le> ?r" "?r < 1"
    by (simp_all add: unit_stream_def)
  let ?swapIdx = "1 + \<lfloor>?r * of_int (int (length ?block) - 1)\<rfloor>"
  have "int (length ?block) - 1 = int (Suc (length pool - 2))"
    using assms(2) len by simp
  then have "nat \<lfloor>?r * of_int (int (length ?block) - 1)\<rfloor> \<le> length pool - 2"
    using random_index_bound [OF r, of "length pool - 2"] by simp
  moreover have "0 \<le> \<lfloor>?r * of_int (int (length ?block) - 1)\<rfloor>"
    using r assms(2) len by simp
  ultimately have "nat ?swapIdx < length ?block"
    using assms(2) len by simp
  moreover have "0 < length ?block" using assms(2) len by auto
  ultimately have "mset (js_swap ?block 0 (nat ?swapIdx)) = mset (map Some pool)"
    using m by (simp add: js_swap_mset)
  with m show ?thesis
    by (simp add: append_block_def Let_def)
qed

lemma build_sequence_blocks:
  assumes rs: "unit_stream rs" and pool: "2 \<le> length pool"
    and "\<forall>b\<in>set bs. mset b = mset (map Some pool)"
  shows "\<exists>bs' k'. build_sequence pool n rs (concat bs, k) = Some (concat bs', k') \<and>
           (\<forall>b\<in>set bs'. mset b = mset (map Some pool)) \<and> n \<le> length (concat bs')"
  using assms(3)
proof (induction "n - length (concat bs)" arbitrary: bs k rule: less_induct)
  case less
  show ?case
  proof (cases "length (concat bs) < n")
    case False
    then have "build_sequence pool n rs (concat bs, k) = Some (concat bs, k)"
      by (subst build_sequence.simps) simp
    with False less.prems show ?thesis
      by (intro exI [of _ bs] exI [of _ k]) simp
  next
    case True
    obtain block where b: "fst (append_block pool rs (concat bs, k)) = concat bs @ block"
      "mset block = mset (map Some pool)"
      using append_block_mset [OF rs pool] by blast
    from b(2) have "length block = length pool"
      by (metis length_map size_mset)
    with pool have grow: "0 < length block" by arith
    let ?bs = "bs @ [block]"
    obtain k2 where st: "append_block pool rs (concat bs, k) = (concat ?bs, k2)"
      using b(1) by (cases "append_block pool rs (concat bs, k)") simp
    have "length (concat ?bs) = length (concat bs) + length block"
      by simp
    with True grow have dec: "n - length (concat ?bs) < n - length (concat bs)"
      by arith
    have inv: "\<forall>b\<in>set ?bs. mset b = mset (map Some pool)"
      using less.prems b(2) by simp
    from less.hyps [OF dec inv, of k2] obtain bs' k' where
      r: "build_sequence pool n rs (concat ?bs, k2) = Some (concat bs', k')"
        "\<forall>b\<in>set bs'. mset b = mset (map Some pool)" "n \<le> length (concat bs')"
      by blast
    have "build_sequence pool n rs (concat bs, k) = build_sequence pool n rs (concat ?bs, k2)"
      using True by (subst build_sequence.simps) (simp add: st)
    with r show ?thesis
      by (intro exI [of _ bs'] exI [of _ k']) simp
  qed
qed

lemma count_list_take_le: "count_list (take n b) y \<le> count_list b y"
proof -
  have "count_list (take n b @ drop n b) y = count_list b y" by simp
  then show ?thesis by (simp only: count_list_append)
qed

lemma count_take_blocks:
  assumes "0 < k" "\<forall>b\<in>set bs. length b = k \<and> count_list b y = 1" "n \<le> length (concat bs)"
  shows "count_list (take n (concat bs)) y = n div k \<or>
         count_list (take n (concat bs)) y = (n + k - 1) div k"
  using assms(2,3)
proof (induction bs arbitrary: n)
  case Nil
  then show ?case by simp
next
  case (Cons b bs)
  from Cons.prems(1) have b: "length b = k" "count_list b y = 1" by simp_all
  from Cons.prems(1) have rest: "\<forall>b\<in>set bs. length b = k \<and> count_list b y = 1" by simp
  show ?case
  proof (cases "n < k")
    case True
    then have t: "take n (concat (b # bs)) = take n b"
      using b(1) by simp
    have "count_list (take n b) y \<le> 1"
      using count_list_take_le [of n b y] b(2) by simp
    then consider "count_list (take n b) y = 0" | "count_list (take n b) y = 1"
      by linarith
    then show ?thesis
    proof cases
      case 1
      have "n div k = 0" using True by simp
      with 1 show ?thesis unfolding t by simp
    next
      case 2
      then have "n \<noteq> 0" by (cases n) simp_all
      then have "(n + k - 1) div k = 1"
        using True assms(1) by (intro div_nat_eqI) simp_all
      with 2 show ?thesis unfolding t by simp
    qed
  next
    case False
    then have nk: "k \<le> n" by simp
    then have t: "take n (concat (b # bs)) = b @ take (n - k) (concat bs)"
      using b(1) by simp
    have le: "n - k \<le> length (concat bs)"
      using Cons.prems(2) b(1) by simp
    note ih = Cons.IH [OF rest le]
    have d1: "1 + (n - k) div k = n div k"
      using nk assms(1) by (simp add: le_div_geq)
    have d2: "1 + (n - k + k - 1) div k = (n + k - 1) div k"
    proof -
      have e1: "n - k + k - 1 = n - 1" using nk by simp
      have e2: "n + k - 1 = n - 1 + k" using nk assms(1) by arith
      have "(n - 1 + k) div k = (n - 1) div k + 1"
        using assms(1) div_add_self2 [of k "n - 1"] by simp
      then show ?thesis by (simp only: e1 e2)
    qed
    have c: "count_list (b @ take (n - k) (concat bs)) y =
        1 + count_list (take (n - k) (concat bs)) y"
      using b(2) by (simp add: count_list_append)
    from ih show ?thesis
    proof
      assume "count_list (take (n - k) (concat bs)) y = (n - k) div k"
      with d1 have "count_list (take n (concat (b # bs))) y = n div k"
        unfolding t c by simp
      then show ?thesis ..
    next
      assume "count_list (take (n - k) (concat bs)) y = (n - k + k - 1) div k"
      with d2 have "count_list (take n (concat (b # bs))) y = (n + k - 1) div k"
        unfolding t c by (simp only:)
      then show ?thesis ..
    qed
  qed
qed

lemma POSE_NAMES_distinct: "distinct POSE_NAMES \<and> length POSE_NAMES = 12"
  by (simp add: POSE_NAMES_def HAND_POSES_def)

lemma block_facts:
  assumes "mset b = mset (map Some pool)" "distinct pool" "x \<in> set pool"
  shows "length b = length pool" "count_list b (Some x) = 1" "set b = Some ` set pool"
proof -
  show "length b = length pool"
    using assms(1) by (metis length_map size_mset)
  have "count_list b (Some x) = count (mset b) (Some x)"
    by (simp add: count_mset)
  also have "\<dots> = count (mset (map Some pool)) (Some x)"
    by (simp only: assms(1))
  also have "\<dots> = count_list (map Some pool) (Some x)"
    by (simp only: count_mset)
  also have "\<dots> = count_list pool x"
    by (induction pool) simp_all
  also have "\<dots> = 1"
    using assms(2,3) by (induction pool) auto
  finally show "count_list b (Some x) = 1" .
  show "set b = Some ` set pool"
    using assms(1) by (metis set_map set_mset_mset)
qed

text \<open>
  Unless exactly one pose is enabled, the effect behaves as intended for every
  stream of random numbers in \<open>[0, 1)\<close>: the loop terminates, the sequence has
  exactly \<^verbatim>\<open>numTargets\<close> entries, every entry is a pool member, and every pool member
  occurs \<open>floor(n/k)\<close> or \<open>ceil(n/k)\<close> times.
\<close>

lemma balanced_blocks_two_or_more:
  assumes rs: "unit_stream rs" and many: "length (getEnabledPoseNames enabledPoses) \<noteq> 1"
  defines "pool \<equiv> (if length (getEnabledPoseNames enabledPoses) > 0
                    then getEnabledPoseNames enabledPoses else POSE_NAMES)"
  shows "\<exists>sq. finalSequence enabledPoses n rs = Some sq \<and> length sq = n \<and>
           set sq \<subseteq> Some ` set pool \<and>
           (\<forall>x\<in>set pool. count_list sq (Some x) = n div length pool \<or>
                          count_list sq (Some x) = (n + length pool - 1) div length pool)"
proof -
  have d: "distinct pool"
    using POSE_NAMES_distinct by (simp add: pool_def getEnabledPoseNames_def)
  have two: "2 \<le> length pool"
  proof (cases "getEnabledPoseNames enabledPoses")
    case Nil
    then show ?thesis using POSE_NAMES_distinct by (simp add: pool_def)
  next
    case (Cons a as)
    with many have "as \<noteq> []" by auto
    then have "1 \<le> length as" by (cases as) simp_all
    with Cons show ?thesis by (simp add: pool_def)
  qed
  have "\<forall>b\<in>set []. mset b = mset (map Some pool)" by simp
  from build_sequence_blocks [OF rs two this, of n 0] obtain bs k' where
    r: "build_sequence pool n rs ([], 0) = Some (concat bs, k')"
      "\<forall>b\<in>set bs. mset b = mset (map Some pool)" "n \<le> length (concat bs)"
    by auto
  let ?sq = "take n (concat bs)"
  have fs: "finalSequence enabledPoses n rs = Some ?sq"
    using r(1) by (simp add: finalSequence_def pool_def Let_def)
  have len: "length ?sq = n"
    using r(3) by simp
  have sub: "set ?sq \<subseteq> Some ` set pool"
  proof
    fix y assume "y \<in> set ?sq"
    then have "y \<in> set (concat bs)" by (rule in_set_takeD)
    then obtain b where "b \<in> set bs" "y \<in> set b" by auto
    with r(2) have "y \<in> set_mset (mset (map Some pool))"
      by (metis set_mset_mset)
    then show "y \<in> Some ` set pool" by simp
  qed
  have cnt: "\<forall>x\<in>set pool. count_list ?sq (Some x) = n div length pool \<or>
                          count_list ?sq (Some x) = (n + length pool - 1) div length pool"
  proof
    fix x assume x: "x \<in> set pool"
    have "\<forall>b\<in>set bs. length b = length pool \<and> count_list b (Some x) = 1"
      using r(2) block_facts(1,2) [OF _ d x] by blast
    moreover have "0 < length pool" using two by arith
    ultimately show "count_list ?sq (Some x) = n div length pool \<or>
        count_list ?sq (Some x) = (n + length pool - 1) div length pool"
      using r(3) by (intro count_take_blocks)
  qed
  from fs len sub cnt show ?thesis by blast
qed

section \<open>The balanced block sequence on a pool of one\<close>

lemmas sequence_defs = only_open_def finalSequence_def getEnabledPoseNames_def POSE_NAMES_def
  HAND_POSES_def build_sequence.simps append_block_def shuffle_def js_swap_def js_index_def
  js_store_def

text \<open>
  Claim C10. With a single enabled pose the second block repeats the last entry, so
  the repair swap runs with \<^verbatim>\<open>swapIdx = 1 + Math.floor(Math.random() * 0) = 1\<close>,
  past the end of the one-element block: the block becomes \<^verbatim>\<open>[undefined, 'open']\<close>.
  For every stream of random numbers the sequence of length 2 is
  \<^verbatim>\<open>['open', undefined]\<close>.
\<close>

theorem single_pose_pool_yields_undefined:
  "getEnabledPoseNames only_open = [''open''] \<and>
   finalSequence only_open 2 rs = Some [Some ''open'', None]"
  by (simp add: sequence_defs)

text \<open>
  Claim C5. On the same pool the sequence of length 3 is
  \<^verbatim>\<open>['open', undefined, 'open']\<close> for every stream of random numbers: the only pool
  element appears twice, while \<open>floor(3/1) = ceil(3/1) = 3\<close>.
\<close>

theorem single_pose_pool_unbalanced:
  "getEnabledPoseNames only_open = [''open''] \<and>
   finalSequence only_open 3 rs = Some [Some ''open'', None, Some ''open''] \<and>
   count_list [Some ''open'', None, Some ''open''] (Some ''open'') = 2 \<and>
   3 div length (getEnabledPoseNames only_open) = 3"
  by (simp add: sequence_defs)

end
